theory Spec2Isabelle
  imports Main
begin

section \<open>JavaScript values seen by the agent\<close>

text \<open>
  The agent (src/agent/Agent.js) handles untyped JavaScript values. Objects that carry an
  identity of their own (element handles, native nodes, public instances) are opaque
  references \<open>Ref a\<close>; functions supplied by a producer are \<open>Fun a\<close>; arrays and plain
  records (the data snapshots, the payloads the agent builds) are kept by value, an object
  being the list of its own enumerable properties in creation order. Numbers are integers
  here: the agent only tests them for truthiness. Two composites with the same content
  stand for the same object; inherited (prototype) members are not modelled, apart from
  \<open>length\<close> and the \<open>map\<close> of arrays, which the agent relies on.
\<close>

datatype jsval =
    Undefined
  | Null
  | Bool bool
  | Num int
  | Str string
  | Ref nat
  | Fun nat
  | Arr "jsval list"
  | Obj "(string \<times> jsval) list"

text \<open>What a \<open>throw\<close> carries out of a call: a TypeError of the runtime (calling what is
  not a function, reading a member of \<open>undefined\<close>), a value thrown by a producer callback,
  or the call of a producer-supplied member function of a data record, which lies outside
  the agent.\<close>

datatype error = TypeError | Thrown jsval | ForeignCall

fun typeof :: "jsval \<Rightarrow> string" where
  "typeof Undefined = ''undefined''"
| "typeof Null = ''object''"
| "typeof (Bool b) = ''boolean''"
| "typeof (Num n) = ''number''"
| "typeof (Str s) = ''string''"
| "typeof (Ref a) = ''object''"
| "typeof (Fun a) = ''function''"
| "typeof (Arr xs) = ''object''"
| "typeof (Obj kvs) = ''object''"

text \<open>ToBoolean: what \<open>if (v)\<close>, \<open>!v\<close> and \<open>v && w\<close> test.\<close>

fun truthy :: "jsval \<Rightarrow> bool" where
  "truthy Undefined = False"
| "truthy Null = False"
| "truthy (Bool b) = b"
| "truthy (Num n) = (n \<noteq> 0)"
| "truthy (Str s) = (s \<noteq> [])"
| "truthy (Ref a) = True"
| "truthy (Fun a) = True"
| "truthy (Arr xs) = True"
| "truthy (Obj kvs) = True"

text \<open>\<open>a && b\<close> yields \<open>a\<close> itself when \<open>a\<close> is falsy, and \<open>!!v\<close> is a boolean.\<close>

definition js_and :: "jsval \<Rightarrow> jsval \<Rightarrow> jsval" where
  "js_and a b = (if truthy a then b else a)"

definition not_not :: "jsval \<Rightarrow> jsval" where
  "not_not v = Bool (truthy v)"

text \<open>The decimal name of an array index, as a property key.\<close>

fun index_key :: "nat \<Rightarrow> string" where
  "index_key n =
     (if n < 10 then [''0123456789'' ! n]
      else index_key (n div 10) @ [''0123456789'' ! (n mod 10)])"

declare index_key.simps [simp del]

text \<open>A property key is an array index when it is the canonical decimal name of an integer
  below \<open>2^32 - 1\<close> (\<open>String(ToUint32(k)) === k\<close>): \<open>0\<close>, \<open>7\<close> and \<open>42\<close> are, \<open>007\<close>,
  \<open>1a\<close> and \<open>dom\<close> are not. The enumeration of an object's keys (\<open>for ... in\<close>) visits
  the array indices first, in ascending numeric order, and then the other keys in the
  order of their creation.\<close>

definition digit_of :: "char \<Rightarrow> nat" where
  "digit_of c =
     (if c \<in> set ''0123456789'' then length (takeWhile (\<lambda>d. d \<noteq> c) ''0123456789'') else 0)"

definition decimal_value :: "string \<Rightarrow> nat" where
  "decimal_value k = foldl (\<lambda>n c. 10 * n + digit_of c) 0 k"

definition is_array_index :: "string \<Rightarrow> bool" where
  "is_array_index k \<longleftrightarrow> index_key (decimal_value k) = k \<and> decimal_value k < 4294967295"

text \<open>The own enumerable properties of a value, in enumeration order: what
  \<open>assign({}, v)\<close> copies. An opaque reference shows none to the agent.\<close>

fun own_props :: "jsval \<Rightarrow> (string \<times> jsval) list" where
  "own_props (Obj kvs) = kvs"
| "own_props (Arr xs) = zip (map index_key [0..<length xs]) xs"
| "own_props (Str s) = zip (map index_key [0..<length s]) (map (\<lambda>c. Str [c]) s)"
| "own_props v = []"

text \<open>The property read \<open>v[k]\<close> (\<open>v.k\<close>) on a value that is not null or undefined.\<close>

fun get_prop :: "jsval \<Rightarrow> string \<Rightarrow> jsval" where
  "get_prop (Arr xs) k =
     (if k = ''length'' then Num (int (length xs))
      else (case map_of (own_props (Arr xs)) k of None \<Rightarrow> Undefined | Some v \<Rightarrow> v))"
| "get_prop (Str s) k =
     (if k = ''length'' then Num (int (length s))
      else (case map_of (own_props (Str s)) k of None \<Rightarrow> Undefined | Some v \<Rightarrow> v))"
| "get_prop v k = (case map_of (own_props v) k of None \<Rightarrow> Undefined | Some v \<Rightarrow> v)"

text \<open>The assignment \<open>o.k = v\<close> on a record: an existing property keeps its place, a new
  one goes last. \<open>delete o.k\<close> removes the property.\<close>

fun set_prop :: "(string \<times> jsval) list \<Rightarrow> string \<Rightarrow> jsval \<Rightarrow> (string \<times> jsval) list" where
  "set_prop [] k v = [(k, v)]"
| "set_prop ((k', v') # kvs) k v =
     (if k' = k then (k, v) # kvs else (k', v') # set_prop kvs k v)"

definition delete_prop :: "(string \<times> jsval) list \<Rightarrow> string \<Rightarrow> (string \<times> jsval) list" where
  "delete_prop kvs k = filter (\<lambda>kv. fst kv \<noteq> k) kvs"

text \<open>\<open>Map.prototype.get\<close>: \<open>undefined\<close> for a key that is not there.\<close>

definition map_get :: "('k \<rightharpoonup> jsval) \<Rightarrow> 'k \<Rightarrow> jsval" where
  "map_get m k = (case m k of None \<Rightarrow> Undefined | Some v \<Rightarrow> v)"

section \<open>The agent's state\<close>

text \<open>The capability table a renderer registers (Helpers): each lookup is optional, and a
  lookup may throw.\<close>

record helpers =
  getNativeFromReactElement :: "(jsval \<Rightarrow> error + jsval) option"
  getReactElementFromNative :: "(jsval \<Rightarrow> error + jsval) option"

datatype level = Log | Warn

text \<open>A callback handed to \<open>window.requestAnimationFrame\<close>.\<close>

datatype frame_callback = UpdateScroll

text \<open>
  The tables of class Agent (\<open>capabilities\<close> and \<open>_prevSelected\<close>, which only the
  handshake and \<open>checkSelection\<close> use, are left out), followed by what the agent does to
  its environment: the
  number of tokens drawn from \<open>guid()\<close> so far, the events emitted (name and arguments),
  the console lines, the producer functions invoked (callee and arguments), and the
  callbacks waiting for the next animation frame. \<open>global\<close> holds the slots of the global
  object; \<open>reactInternals\<close> lists the properties of the object \<open>this.reactInternals\<close> in
  the enumeration order of \<open>for (renderer in this.reactInternals)\<close>: the renderer tokens
  that are array indices first, in ascending numeric order, then the other tokens in the
  order in which they were first registered.
\<close>

record agent =
  global :: "string \<rightharpoonup> jsval"
  reactElements :: "jsval \<rightharpoonup> jsval"
  ids :: "jsval \<rightharpoonup> jsval"
  elementData :: "jsval \<rightharpoonup> jsval"
  roots :: "jsval set"
  reactInternals :: "(string \<times> helpers) list"
  renderers :: "jsval \<rightharpoonup> string"
  scrollUpdate :: bool
  guid_calls :: nat
  emitted :: "(string \<times> jsval list) list"
  console :: "(level \<times> jsval list) list"
  invoked :: "(jsval \<times> jsval list) list"
  frame_requests :: "frame_callback list"

text \<open>The constructor: empty tables, no scroll refresh pending.\<close>

definition new_Agent :: "(string \<rightharpoonup> jsval) \<Rightarrow> agent" where
  "new_Agent g =
     \<lparr> global = g, reactElements = Map.empty, ids = Map.empty, elementData = Map.empty,
       roots = {}, reactInternals = [], renderers = Map.empty, scrollUpdate = False,
       guid_calls = 0, emitted = [], console = [], invoked = [], frame_requests = [] \<rparr>"

text \<open>\<open>this.emit(ev, args)\<close>: the event goes to the listeners. The one listener the agent
  itself installs (constructor, on \<open>selected\<close>) publishes the public instance of the
  selected element as \<open>$re\<close>.\<close>

definition on_selected :: "agent \<Rightarrow> jsval list \<Rightarrow> agent" where
  "on_selected s args =
     (let eid = (case args of [] \<Rightarrow> Undefined | a # _ \<Rightarrow> a);
          data = map_get (elementData s) eid
      in if truthy data \<and> truthy (get_prop data ''publicInstance'')
         then s\<lparr>global := (global s)(''$re'' \<mapsto> get_prop data ''publicInstance'')\<rparr>
         else s)"

definition emit :: "agent \<Rightarrow> string \<Rightarrow> jsval list \<Rightarrow> agent" where
  "emit s ev args =
     (let s1 = s\<lparr>emitted := emitted s @ [(ev, args)]\<rparr>
      in if ev = ''selected'' then on_selected s1 args else s1)"

definition console_warn :: "agent \<Rightarrow> jsval list \<Rightarrow> agent" where
  "console_warn s args = s\<lparr>console := console s @ [(Warn, args)]\<rparr>"

definition console_log :: "agent \<Rightarrow> jsval list \<Rightarrow> agent" where
  "console_log s args = s\<lparr>console := console s @ [(Log, args)]\<rparr>"

section \<open>The identity registry\<close>

text \<open>\<open>typeof element !== 'object' || !element\<close> is the guard of getId; an object-like
  value is one that passes it.\<close>

definition is_object_like :: "jsval \<Rightarrow> bool" where
  "is_object_like v = (\<not> (typeof v \<noteq> ''object'' \<or> \<not> truthy v))"

text \<open>getId, lines 335-344. \<open>G\<close> is the token generator \<open>guid\<close> of utils/guid, which is not
  part of the sources at hand: \<open>G n\<close> is the token its call number \<open>n\<close> returns.\<close>

definition getId :: "(nat \<Rightarrow> string) \<Rightarrow> agent \<Rightarrow> jsval \<Rightarrow> jsval \<times> agent" where
  "getId G s element =
     (if typeof element \<noteq> ''object'' \<or> \<not> truthy element then (element, s)
      else
        let s2 =
          (if ids s element = None
           then
             let s1 = s\<lparr>ids := (ids s)(element \<mapsto> Str (G (guid_calls s))),
                         guid_calls := Suc (guid_calls s)\<rparr>
             in s1\<lparr>reactElements := (reactElements s1)(map_get (ids s1) element \<mapsto> element)\<rparr>
           else s)
        in (map_get (ids s2) element, s2))"

text \<open>\<open>children.map(c => this.getId(c))\<close>: the children are resolved from left to right,
  each call seeing the registry the previous one left.\<close>

fun map_getId :: "(nat \<Rightarrow> string) \<Rightarrow> agent \<Rightarrow> jsval list \<Rightarrow> jsval list \<times> agent" where
  "map_getId G s [] = ([], s)"
| "map_getId G s (c # cs) =
     (case getId G s c of (t, s1) \<Rightarrow>
        (case map_getId G s1 cs of (ts, s2) \<Rightarrow> (t # ts, s2)))"

section \<open>Producer lifecycle callbacks\<close>

text \<open>setReactInternals, lines 133-135: \<open>this.reactInternals[renderer] = reactInternals\<close>.
  A token that is already a key keeps its place. A new key that is an array index takes
  its numeric place among the array indices, which come first; any other new key goes
  last.\<close>

fun insert_index ::
  "string \<times> helpers \<Rightarrow> (string \<times> helpers) list \<Rightarrow> (string \<times> helpers) list" where
  "insert_index kv [] = [kv]"
| "insert_index kv ((k', h') # rest) =
     (if is_array_index k' \<and> decimal_value k' < decimal_value (fst kv)
      then (k', h') # insert_index kv rest
      else kv # (k', h') # rest)"

definition setReactInternals :: "agent \<Rightarrow> string \<Rightarrow> helpers \<Rightarrow> agent" where
  "setReactInternals s renderer h =
     s\<lparr>reactInternals :=
         (if renderer \<in> fst ` set (reactInternals s)
          then map (\<lambda>(r, h'). if r = renderer then (r, h) else (r, h')) (reactInternals s)
          else if is_array_index renderer
          then insert_index (renderer, h) (reactInternals s)
          else reactInternals s @ [(renderer, h)])\<rparr>"

definition addRoot :: "(nat \<Rightarrow> string) \<Rightarrow> agent \<Rightarrow> string \<Rightarrow> jsval \<Rightarrow> agent" where
  "addRoot G s renderer element =
     (case getId G s element of (eid, s1) \<Rightarrow>
        emit (s1\<lparr>roots := insert eid (roots s1)\<rparr>) ''root'' [eid])"

text \<open>
  Lines 357-364 and 372-379, shared by onMounted and onUpdated:
  \<^verbatim>\<open>
    var send = assign({}, data);
    if (send.children && send.children.map) {
      send.children = send.children.map(c => this.getId(c));
    }
    send.id = id;
    send.canUpdate = send.updater && !!send.updater.forceUpdate;
    delete send.type;
    delete send.updater;
  \<close>
  The outcome is the record to send and the state after the calls of getId, or the
  exception of the \<open>map\<close> call with the state it leaves. For an array \<open>map\<close> is
  \<open>Array.prototype.map\<close>; a record with a truthy \<open>map\<close> member of its own has that member
  called.
\<close>

definition has_map :: "jsval \<Rightarrow> bool" where
  "has_map v = (case v of Arr xs \<Rightarrow> True | _ \<Rightarrow> truthy (get_prop v ''map''))"

definition make_send ::
  "(nat \<Rightarrow> string) \<Rightarrow> agent \<Rightarrow> jsval \<Rightarrow> jsval \<Rightarrow> (error \<times> agent) + ((string \<times> jsval) list \<times> agent)" where
  "make_send G s eid data =
     (let send = own_props data;
          children = get_prop (Obj send) ''children'';
          mapped =
            (if truthy children \<and> has_map children
             then (case children of
                     Arr cs \<Rightarrow>
                       (case map_getId G s cs of (ts, s1) \<Rightarrow>
                          Inr (set_prop send ''children'' (Arr ts), s1))
                   | _ \<Rightarrow>
                       (case get_prop children ''map'' of
                          Fun f \<Rightarrow> Inl (ForeignCall, s)
                        | _ \<Rightarrow> Inl (TypeError, s)))
             else Inr (send, s))
      in case mapped of
           Inl e \<Rightarrow> Inl e
         | Inr (send1, s1) \<Rightarrow>
             (let send2 = set_prop send1 ''id'' eid;
                  updater = get_prop (Obj send2) ''updater'';
                  send3 = set_prop send2 ''canUpdate''
                            (js_and updater (not_not (get_prop updater ''forceUpdate'')));
                  send4 = delete_prop send3 ''type'';
                  send5 = delete_prop send4 ''updater''
              in Inr (send5, s1)))"

definition onMounted ::
  "(nat \<Rightarrow> string) \<Rightarrow> agent \<Rightarrow> string \<Rightarrow> jsval \<Rightarrow> jsval \<Rightarrow> (error \<times> agent) + agent" where
  "onMounted G s renderer component data =
     (case getId G s component of (eid, s1) \<Rightarrow>
        (let s2 = s1\<lparr>renderers := (renderers s1)(eid \<mapsto> renderer)\<rparr>;
             s3 = s2\<lparr>elementData := (elementData s2)(eid \<mapsto> data)\<rparr>
         in case make_send G s3 eid data of
              Inl e \<Rightarrow> Inl e
            | Inr (send, s4) \<Rightarrow> Inr (emit s4 ''mount'' [Obj send])))"

definition onUpdated ::
  "(nat \<Rightarrow> string) \<Rightarrow> agent \<Rightarrow> jsval \<Rightarrow> jsval \<Rightarrow> (error \<times> agent) + agent" where
  "onUpdated G s component data =
     (case getId G s component of (eid, s1) \<Rightarrow>
        (let s2 = s1\<lparr>elementData := (elementData s1)(eid \<mapsto> data)\<rparr>
         in case make_send G s2 eid data of
              Inl e \<Rightarrow> Inl e
            | Inr (send, s3) \<Rightarrow> Inr (emit s3 ''update'' [Obj send])))"

definition onUnmounted :: "(nat \<Rightarrow> string) \<Rightarrow> agent \<Rightarrow> jsval \<Rightarrow> agent" where
  "onUnmounted G s component =
     (case getId G s component of (eid, s1) \<Rightarrow>
        (let s2 = s1\<lparr>elementData := (elementData s1)(eid := None)\<rparr>;
             s3 = s2\<lparr>roots := roots s2 - {eid}\<rparr>;
             s4 = s3\<lparr>renderers := (renderers s3)(eid := None)\<rparr>;
             s5 = emit s4 ''unmount'' [eid]
         in s5\<lparr>ids := (ids s5)(component := None)\<rparr>))"

section \<open>Native lookups and highlighting\<close>

text \<open>getNodeForID, lines 246-256. \<open>this.reactInternals[renderer]\<close> is \<open>undefined\<close> for a
  renderer that never registered, and reading a member of it throws.\<close>

definition getNodeForID :: "agent \<Rightarrow> jsval \<Rightarrow> error + jsval" where
  "getNodeForID s eid =
     (let component = map_get (reactElements s) eid
      in if \<not> truthy component then Inr Null
         else
           (case renderers s eid of
              None \<Rightarrow> Inr Null
            | Some renderer \<Rightarrow>
                if renderer = [] then Inr Null
                else
                  (case map_of (reactInternals s) renderer of
                     None \<Rightarrow> Inl TypeError
                   | Some h \<Rightarrow>
                       (case getNativeFromReactElement h of
                          None \<Rightarrow> Inr Null
                        | Some f \<Rightarrow> f component))))"

definition highlight :: "agent \<Rightarrow> jsval \<Rightarrow> error + agent" where
  "highlight s eid =
     (let data = map_get (elementData s) eid
      in case getNodeForID s eid of
           Inl e \<Rightarrow> Inl e
         | Inr node \<Rightarrow>
             if truthy data \<and> truthy node
             then Inr (emit s ''highlight''
                        [Obj [(''node'', node), (''name'', get_prop data ''name''),
                              (''props'', get_prop data ''props'')]])
             else Inr s)"

text \<open>The \<open>forEach\<close> of highlightMany: \<open>nodes\<close> grows by \<open>push\<close>.\<close>

fun collect_nodes :: "agent \<Rightarrow> jsval list \<Rightarrow> jsval list \<Rightarrow> error + jsval list" where
  "collect_nodes s [] nodes = Inr nodes"
| "collect_nodes s (eid # eids) nodes =
     (case getNodeForID s eid of
        Inl e \<Rightarrow> Inl e
      | Inr node \<Rightarrow> collect_nodes s eids (if truthy node then nodes @ [node] else nodes))"

definition highlightMany :: "agent \<Rightarrow> jsval list \<Rightarrow> error + agent" where
  "highlightMany s eids =
     (case collect_nodes s eids [] of
        Inl e \<Rightarrow> Inl e
      | Inr nodes \<Rightarrow>
          if length nodes \<noteq> 0 then Inr (emit s ''highlightMany'' [Arr nodes]) else Inr s)"

text \<open>getIDForNode, lines 275-291. The field \<open>reactInternals\<close> always holds an object, so
  the guard of line 276 never fires. \<open>component\<close> is declared before the loop, so a lookup
  that throws leaves it as the previous round left it; a renderer without
  getReactElementFromNative throws the TypeError of calling \<open>undefined\<close>, inside the
  \<open>try\<close>.\<close>

definition call_getReactElementFromNative :: "helpers \<Rightarrow> jsval \<Rightarrow> error + jsval" where
  "call_getReactElementFromNative h node =
     (case getReactElementFromNative h of None \<Rightarrow> Inl TypeError | Some f \<Rightarrow> f node)"

fun getIDForNode_loop ::
  "(nat \<Rightarrow> string) \<Rightarrow> agent \<Rightarrow> jsval \<Rightarrow> jsval \<Rightarrow> (string \<times> helpers) list \<Rightarrow> jsval \<times> agent" where
  "getIDForNode_loop G s node component [] = (Null, s)"
| "getIDForNode_loop G s node component ((renderer, h) # rest) =
     (let component' =
            (case call_getReactElementFromNative h node of
               Inl e \<Rightarrow> component
             | Inr c \<Rightarrow> c)
      in if truthy component' then getId G s component'
         else getIDForNode_loop G s node component' rest)"

definition getIDForNode :: "(nat \<Rightarrow> string) \<Rightarrow> agent \<Rightarrow> jsval \<Rightarrow> jsval \<times> agent" where
  "getIDForNode G s node = getIDForNode_loop G s node Undefined (reactInternals s)"

text \<open>selectFromDOMNode and selectFromReactInstance, lines 258-273.\<close>

definition selectFromDOMNode :: "(nat \<Rightarrow> string) \<Rightarrow> agent \<Rightarrow> jsval \<Rightarrow> jsval \<Rightarrow> agent" where
  "selectFromDOMNode G s node quiet =
     (case getIDForNode G s node of (eid, s1) \<Rightarrow>
        if \<not> truthy eid then s1
        else emit s1 ''setSelection'' [Obj [(''id'', eid), (''quiet'', quiet)]])"

definition selectFromReactInstance ::
  "(nat \<Rightarrow> string) \<Rightarrow> agent \<Rightarrow> jsval \<Rightarrow> jsval \<Rightarrow> agent" where
  "selectFromReactInstance G s inst quiet =
     (case getId G s inst of (eid, s1) \<Rightarrow>
        if \<not> truthy eid then console_log s1 [Str ''no instance id'', inst]
        else emit s1 ''setSelection'' [Obj [(''id'', eid), (''quiet'', quiet)]])"

section \<open>Commands from the frontend\<close>

text \<open>The call \<open>f(args)\<close> of a value found in a data record: a TypeError unless it is a
  function; a producer's function is recorded as invoked, what it does is its own.\<close>

definition call_function :: "agent \<Rightarrow> jsval \<Rightarrow> jsval list \<Rightarrow> error + agent" where
  "call_function s f args =
     (case f of
        Fun a \<Rightarrow> Inr (s\<lparr>invoked := invoked s @ [(f, args)]\<rparr>)
      | _ \<Rightarrow> Inl TypeError)"

definition setProps :: "agent \<Rightarrow> jsval \<Rightarrow> jsval \<Rightarrow> jsval \<Rightarrow> error + agent" where
  "setProps s eid path val =
     (let data = map_get (elementData s) eid
      in if truthy data \<and> truthy (get_prop data ''updater'')
            \<and> truthy (get_prop (get_prop data ''updater'') ''setInProps'')
         then call_function s (get_prop (get_prop data ''updater'') ''setInProps'') [path, val]
         else Inr (console_warn s
                [Str ''trying to set props on a component that doesn't support it'']))"

definition setState :: "agent \<Rightarrow> jsval \<Rightarrow> jsval \<Rightarrow> jsval \<Rightarrow> error + agent" where
  "setState s eid path val =
     (let data = map_get (elementData s) eid
      in if truthy data \<and> truthy (get_prop data ''updater'')
            \<and> truthy (get_prop (get_prop data ''updater'') ''setInState'')
         then call_function s (get_prop (get_prop data ''updater'') ''setInState'') [path, val]
         else Inr (console_warn s
                [Str ''trying to set state on a component that doesn't support it'']))"

definition setContext :: "agent \<Rightarrow> jsval \<Rightarrow> jsval \<Rightarrow> jsval \<Rightarrow> error + agent" where
  "setContext s eid path val =
     (let data = map_get (elementData s) eid
      in if truthy data \<and> truthy (get_prop data ''updater'')
            \<and> truthy (get_prop (get_prop data ''updater'') ''setInContext'')
         then call_function s (get_prop (get_prop data ''updater'') ''setInContext'') [path, val]
         else Inr (console_warn s
                [Str ''trying to set state on a component that doesn't support it'']))"

text \<open>The member read \<open>obj[attr]\<close> as the runtime performs it: a TypeError on \<open>null\<close> and
  \<open>undefined\<close>.\<close>

definition read_member :: "jsval \<Rightarrow> string \<Rightarrow> error + jsval" where
  "read_member obj attr =
     (if obj = Undefined \<or> obj = Null then Inl TypeError else Inr (get_prop obj attr))"

text \<open>getIn, lines 405-409: \<open>path.reduce((obj, attr) => obj ? obj[attr] : null, base)\<close>.\<close>

fun getIn :: "jsval \<Rightarrow> string list \<Rightarrow> error + jsval" where
  "getIn base [] = Inr base"
| "getIn base (attr # path) =
     (case (if truthy base then read_member base attr else Inr Null) of
        Inl e \<Rightarrow> Inl e
      | Inr obj \<Rightarrow> getIn obj path)"

text \<open>The \<open>path\<close> of a makeGlobal command: the string \<open>'instance'\<close>, or an array of keys as
  the signature of \<open>_makeGlobal\<close> declares it.\<close>

datatype path = Instance | Keys "string list"

definition makeGlobal :: "agent \<Rightarrow> jsval \<Rightarrow> path \<Rightarrow> error + agent" where
  "makeGlobal s eid p =
     (let data = map_get (elementData s) eid
      in if \<not> truthy data then Inr s
         else
           (case (case p of
                    Instance \<Rightarrow> Inr (get_prop data ''publicInstance'')
                  | Keys ks \<Rightarrow> getIn data ks) of
              Inl e \<Rightarrow> Inl e
            | Inr v \<Rightarrow>
                Inr (console_log (s\<lparr>global := (global s)(''$tmp'' \<mapsto> v)\<rparr>)
                       [Str ''$tmp ='', v])))"

section \<open>Scroll notifications\<close>

definition onScroll :: "agent \<Rightarrow> agent" where
  "onScroll s =
     (if \<not> scrollUpdate s
      then s\<lparr>scrollUpdate := True, frame_requests := frame_requests s @ [UpdateScroll]\<rparr>
      else s)"

definition updateScroll :: "agent \<Rightarrow> agent" where
  "updateScroll s = (emit s ''refreshMultiOverlay'' [])\<lparr>scrollUpdate := False\<rparr>"

text \<open>An animation frame: the browser calls the callbacks requested since the last frame,
  in the order of the requests.\<close>

fun run_callbacks :: "agent \<Rightarrow> frame_callback list \<Rightarrow> agent" where
  "run_callbacks s [] = s"
| "run_callbacks s (UpdateScroll # cbs) = run_callbacks (updateScroll s) cbs"

definition animation_frame :: "agent \<Rightarrow> agent" where
  "animation_frame s = run_callbacks (s\<lparr>frame_requests := []\<rparr>) (frame_requests s)"

section \<open>Runs of the agent\<close>

text \<open>The calls the agent receives: from the renderers, from the frontend (the handlers
  of addBridge), and from the browser. A call that throws leaves the state it had reached;
  the next call goes on from there. The handlers that only pass an event on
  (\<open>hideHighlight\<close>, \<open>startInspecting\<close>, ...) or act on a DOM node (\<open>scrollToNode\<close>,
  \<open>changeTextContent\<close>, \<open>putSelectedNode\<close>) are left out: they change none of the agent's
  tables.\<close>

datatype call =
    SetReactInternals string helpers
  | AddRoot string jsval
  | OnMounted string jsval jsval
  | OnUpdated jsval jsval
  | OnUnmounted jsval
  | Highlight jsval
  | HighlightMany "jsval list"
  | GetIDForNode jsval
  | SelectFromDOMNode jsval jsval
  | SelectFromReactInstance jsval jsval
  | SetProps jsval jsval jsval
  | SetState jsval jsval jsval
  | SetContext jsval jsval jsval
  | MakeGlobal jsval path
  | Selected jsval
  | Scroll
  | AnimationFrame

definition after :: "agent \<Rightarrow> error + agent \<Rightarrow> agent" where
  "after s r = (case r of Inl e \<Rightarrow> s | Inr s' \<Rightarrow> s')"

definition after_partial :: "(error \<times> agent) + agent \<Rightarrow> agent" where
  "after_partial r = (case r of Inl (e, s') \<Rightarrow> s' | Inr s' \<Rightarrow> s')"

fun step :: "(nat \<Rightarrow> string) \<Rightarrow> agent \<Rightarrow> call \<Rightarrow> agent" where
  "step G s (SetReactInternals renderer h) = setReactInternals s renderer h"
| "step G s (AddRoot renderer element) = addRoot G s renderer element"
| "step G s (OnMounted renderer component data) =
     after_partial (onMounted G s renderer component data)"
| "step G s (OnUpdated component data) = after_partial (onUpdated G s component data)"
| "step G s (OnUnmounted component) = onUnmounted G s component"
| "step G s (Highlight eid) = after s (highlight s eid)"
| "step G s (HighlightMany eids) = after s (highlightMany s eids)"
| "step G s (GetIDForNode node) = snd (getIDForNode G s node)"
| "step G s (SelectFromDOMNode node quiet) = selectFromDOMNode G s node quiet"
| "step G s (SelectFromReactInstance inst quiet) = selectFromReactInstance G s inst quiet"
| "step G s (SetProps eid p v) = after s (setProps s eid p v)"
| "step G s (SetState eid p v) = after s (setState s eid p v)"
| "step G s (SetContext eid p v) = after s (setContext s eid p v)"
| "step G s (MakeGlobal eid p) = after s (makeGlobal s eid p)"
| "step G s (Selected eid) = emit s ''selected'' [eid]"
| "step G s Scroll = onScroll s"
| "step G s AnimationFrame = animation_frame s"

fun run :: "(nat \<Rightarrow> string) \<Rightarrow> agent \<Rightarrow> call list \<Rightarrow> agent" where
  "run G s [] = s"
| "run G s (c # cs) = run G (step G s c) cs"

text \<open>A token generator that never repeats, for concrete runs: \<open>g\<close>, \<open>gg\<close>, \<open>ggg\<close>, ...\<close>

definition unary_guid :: "nat \<Rightarrow> string" where
  "unary_guid n = replicate (Suc n) (CHR ''g'')"

definition fresh_agent :: agent where
  "fresh_agent = new_Agent Map.empty"

text \<open>Sample producers and a sample session. \<open>dom_helpers\<close> knows the element \<open>Ref 1\<close>
  and its native node \<open>Ref 101\<close> and throws on a node it does not know; \<open>bare_helpers\<close>
  offers no lookup; the element lookup of \<open>throwing_helpers\<close> always throws;
  \<open>answering_helpers c\<close> finds the element \<open>c\<close> behind every node; the native lookup of
  \<open>moody_helpers\<close> knows \<open>Ref 1\<close> and throws on every other element. In \<open>sample_session\<close>
  three renderers register, and the renderer \<open>dom\<close> mounts the root \<open>Ref 1\<close> with one
  child \<open>Ref 2\<close>.\<close>

definition dom_helpers :: helpers where
  "dom_helpers =
     \<lparr> getNativeFromReactElement =
         Some (\<lambda>c. if c = Ref 1 then Inr (Ref 101) else Inr Null),
       getReactElementFromNative =
         Some (\<lambda>n. if n = Ref 101 then Inr (Ref 1) else Inl (Thrown (Str ''unknown node''))) \<rparr>"


definition moody_helpers :: helpers where
  "moody_helpers =
     \<lparr> getNativeFromReactElement =
         Some (\<lambda>c. if c = Ref 1 then Inr (Ref 101) else Inl (Thrown (Str ''boom''))),
       getReactElementFromNative = None \<rparr>"

definition bare_helpers :: helpers where
  "bare_helpers = \<lparr> getNativeFromReactElement = None, getReactElementFromNative = None \<rparr>"

definition throwing_helpers :: helpers where
  "throwing_helpers =
     \<lparr> getNativeFromReactElement = None,
       getReactElementFromNative = Some (\<lambda>n. Inl (Thrown Null)) \<rparr>"

definition root_data :: jsval where
  "root_data =
     Obj [(''name'', Str ''App''),
          (''type'', Fun 1),
          (''props'', Obj [(''title'', Str ''hi''), (''style'', Null)]),
          (''children'', Arr [Ref 2]),
          (''updater'', Obj [(''setInProps'', Fun 7), (''forceUpdate'', Fun 8)]),
          (''publicInstance'', Ref 50)]"

text \<open>The raw data of the mount scenario: \<open>{name: "App", children: []}\<close>, no updater.\<close>

definition app_data :: jsval where
  "app_data = Obj [(''name'', Str ''App''), (''children'', Arr [])]"

definition sample_session :: "call list" where
  "sample_session =
     [SetReactInternals ''throwing'' throwing_helpers,
      SetReactInternals ''bare'' bare_helpers,
      SetReactInternals ''dom'' dom_helpers,
      AddRoot ''dom'' (Ref 1),
      OnMounted ''dom'' (Ref 1) root_data]"

definition sample_agent :: agent where
  "sample_agent = run unary_guid fresh_agent sample_session"

text \<open>Two sessions in which a native lookup fails: in \<open>ghost_agent\<close> the element \<open>Ref 1\<close>
  is mounted by a renderer that never registered; in \<open>moody_agent\<close> the renderer \<open>dom\<close>
  registers \<open>moody_helpers\<close> and mounts \<open>Ref 1\<close> and \<open>Ref 2\<close>. In \<open>index_agent\<close> the renderer
  \<open>b\<close> registers before the renderer \<open>1\<close>.\<close>

definition ghost_agent :: agent where
  "ghost_agent = run unary_guid fresh_agent [OnMounted ''ghost'' (Ref 1) app_data]"

definition moody_agent :: agent where
  "moody_agent =
     run unary_guid fresh_agent
       [SetReactInternals ''dom'' moody_helpers,
        OnMounted ''dom'' (Ref 1) app_data,
        OnMounted ''dom'' (Ref 2) app_data]"


section \<open>Notions of the specification\<close>

text \<open>The registry is consistent: every handle that has an identity is object-like, its
  identity is a token the generator has already issued, and the reverse table leads from
  the token back to the handle; every key of the reverse table is an issued token.\<close>

definition registry_ok :: "(nat \<Rightarrow> string) \<Rightarrow> agent \<Rightarrow> bool" where
  "registry_ok G s \<longleftrightarrow>
     (\<forall>h t. ids s h = Some t \<longrightarrow>
        is_object_like h \<and> (\<exists>k<guid_calls s. t = Str (G k)) \<and> reactElements s t = Some h)
   \<and> (\<forall>t h. reactElements s t = Some h \<longrightarrow> (\<exists>k<guid_calls s. t = Str (G k)))"

text \<open>The updater capability of a stored snapshot for one slot (\<open>setInProps\<close>,
  \<open>setInState\<close>, \<open>setInContext\<close>): \<open>undefined\<close> when there is no snapshot, no updater or no
  such slot.\<close>

definition updater_slot :: "agent \<Rightarrow> jsval \<Rightarrow> string \<Rightarrow> jsval" where
  "updater_slot s eid slot =
     (case elementData s eid of
        None \<Rightarrow> Undefined
      | Some data \<Rightarrow>
          if truthy data \<and> truthy (get_prop data ''updater'')
          then get_prop (get_prop data ''updater'') slot
          else Undefined)"


text \<open>An identity resolves when the lookup of its native node returns a truthy node; the
  lookup returns when it does not throw.\<close>

definition lookup_returns :: "agent \<Rightarrow> jsval \<Rightarrow> bool" where
  "lookup_returns s eid = (case getNodeForID s eid of Inl e \<Rightarrow> False | Inr n \<Rightarrow> True)"

text \<open>The producers keep to their interface: a renderer is registered before elements are
  attributed to it, and a native lookup it offers returns (a node or nothing) on every
  element.\<close>

definition producers_ok :: "agent \<Rightarrow> bool" where
  "producers_ok s \<longleftrightarrow>
     (\<forall>eid r. renderers s eid = Some r \<longrightarrow> r = [] \<or> map_of (reactInternals s) r \<noteq> None)
   \<and> (\<forall>r h f c. map_of (reactInternals s) r = Some h \<longrightarrow>
          getNativeFromReactElement h = Some f \<longrightarrow> (\<exists>n. f c = Inr n))"

definition node_of :: "agent \<Rightarrow> jsval \<Rightarrow> jsval" where
  "node_of s eid = (case getNodeForID s eid of Inl e \<Rightarrow> Null | Inr n \<Rightarrow> n)"

definition resolved_nodes :: "agent \<Rightarrow> jsval list \<Rightarrow> jsval list" where
  "resolved_nodes s eids = filter truthy (map (node_of s) eids)"

text \<open>A producer matches a native node when it has the lookup, the lookup does not throw,
  and what it returns is a component (a truthy value); the first match is taken in the
  order of the producers.\<close>


definition matches :: "helpers \<Rightarrow> jsval \<Rightarrow> jsval option" where
  "matches h node =
     (case getReactElementFromNative h of
        None \<Rightarrow> None
      | Some f \<Rightarrow>
          (case f node of
             Inl e \<Rightarrow> None
           | Inr c \<Rightarrow> if truthy c then Some c else None))"

fun first_match :: "helpers list \<Rightarrow> jsval \<Rightarrow> jsval option" where
  "first_match [] node = None"
| "first_match (h # hs) node =
     (case matches h node of Some c \<Rightarrow> Some c | None \<Rightarrow> first_match hs node)"

section \<open>Properties\<close>

subsection \<open>Property keys and the order of the renderers\<close>

lemma index_key_digits: "set (index_key n) \<subseteq> set ''0123456789''"
proof (induction n rule: index_key.induct)
  case (1 n)
  have d: "\<And>m. m < 10 \<Longrightarrow> ''0123456789'' ! m \<in> set ''0123456789''"
    by (rule nth_mem) simp
  show ?case
  proof (cases "n < 10")
    case True
    then show ?thesis using d [of n] by (subst index_key.simps) simp
  next
    case False
    have "n mod 10 < 10" by simp
    then show ?thesis
      using False "1.IH" d [of "n mod 10"] by (subst index_key.simps) simp
  qed
qed

lemma array_index_digits: "is_array_index k \<Longrightarrow> set k \<subseteq> set ''0123456789''"
  using index_key_digits [of "decimal_value k"] by (simp add: is_array_index_def)

lemma sample_tokens:
  "\<not> is_array_index ''throwing''" "\<not> is_array_index ''bare''" "\<not> is_array_index ''dom''"
  "\<not> is_array_index ''b''" "\<not> is_array_index ''ghost''"
  using array_index_digits [of "''throwing''"] array_index_digits [of "''bare''"]
    array_index_digits [of "''dom''"] array_index_digits [of "''b''"]
    array_index_digits [of "''ghost''"]
  by auto




subsection \<open>Events and the sample session\<close>

lemma emit_plain:
  "ev \<noteq> ''selected'' \<Longrightarrow> emit s ev args = s\<lparr>emitted := emitted s @ [(ev, args)]\<rparr>"
  by (simp add: emit_def)

lemmas run_defs = sample_agent_def sample_session_def fresh_agent_def new_Agent_def
  setReactInternals_def addRoot_def onMounted_def make_send_def getId_def emit_def
  unary_guid_def map_get_def after_partial_def has_map_def root_data_def js_and_def
  not_not_def delete_prop_def Let_def

lemma sample_agent_eval:
  "sample_agent =
     \<lparr> global = Map.empty,
       reactElements = [Str ''g'' \<mapsto> Ref 1, Str ''gg'' \<mapsto> Ref 2],
       ids = [Ref 1 \<mapsto> Str ''g'', Ref 2 \<mapsto> Str ''gg''],
       elementData = [Str ''g'' \<mapsto> root_data],
       roots = {Str ''g''},
       reactInternals = [(''throwing'', throwing_helpers), (''bare'', bare_helpers),
                         (''dom'', dom_helpers)],
       renderers = [Str ''g'' \<mapsto> ''dom''],
       scrollUpdate = False,
       guid_calls = 2,
       emitted = [(''root'', [Str ''g'']),
                  (''mount'', [Obj [(''name'', Str ''App''),
                                    (''props'', Obj [(''title'', Str ''hi''), (''style'', Null)]),
                                    (''children'', Arr [Str ''gg'']),
                                    (''publicInstance'', Ref 50),
                                    (''id'', Str ''g''),
                                    (''canUpdate'', Bool True)]])],
       console = [], invoked = [], frame_requests = [] \<rparr>"
  by (simp add: run_defs sample_tokens)

subsection \<open>The registry\<close>

lemma emit_registry:
  "ids (emit s ev args) = ids s"
  "reactElements (emit s ev args) = reactElements s"
  "guid_calls (emit s ev args) = guid_calls s"
  by (simp_all add: emit_def on_selected_def Let_def)

lemma emit_store:
  "elementData (emit s ev args) = elementData s"
  "roots (emit s ev args) = roots s"
  "renderers (emit s ev args) = renderers s"
  by (simp_all add: emit_def on_selected_def Let_def)

lemma getId_unfold:
  "getId G s x =
     (if \<not> is_object_like x then (x, s)
      else case ids s x of
             Some t \<Rightarrow> (t, s)
           | None \<Rightarrow>
               (Str (G (guid_calls s)),
                s\<lparr>ids := (ids s)(x \<mapsto> Str (G (guid_calls s))),
                  guid_calls := Suc (guid_calls s),
                  reactElements := (reactElements s)(Str (G (guid_calls s)) \<mapsto> x)\<rparr>))"
  by (auto simp: getId_def is_object_like_def map_get_def Let_def split: option.splits)

lemma registry_ok_cong:
  "ids s' = ids s \<Longrightarrow> reactElements s' = reactElements s \<Longrightarrow> guid_calls s' = guid_calls s
   \<Longrightarrow> registry_ok G s' = registry_ok G s"
  by (simp add: registry_ok_def)

lemma registry_ok_new: "registry_ok G (new_Agent g)"
  by (simp add: registry_ok_def new_Agent_def)

lemma getId_store:
  "elementData (snd (getId G s x)) = elementData s"
  "roots (snd (getId G s x)) = roots s"
  "renderers (snd (getId G s x)) = renderers s"
  "emitted (snd (getId G s x)) = emitted s"
  by (simp_all add: getId_unfold split: option.splits)

lemma getId_keeps: "ids s h = Some t \<Longrightarrow> ids (snd (getId G s x)) h = Some t"
  by (auto simp: getId_unfold split: option.splits)

lemma getId_keeps_reverse:
  assumes "inj G" "registry_ok G s" "reactElements s t = Some h"
  shows "reactElements (snd (getId G s x)) t = Some h"
proof -
  from assms(2,3) obtain k where k: "k < guid_calls s" "t = Str (G k)"
    by (auto simp: registry_ok_def)
  then have "t \<noteq> Str (G (guid_calls s))"
    using assms(1) by (auto dest: injD)
  with assms(3) show ?thesis
    by (auto simp: getId_unfold split: option.splits)
qed

lemma getId_known: "ids s h = Some t \<Longrightarrow> is_object_like h \<Longrightarrow> getId G s h = (t, s)"
  by (simp add: getId_unfold)

lemma getId_registers:
  "is_object_like h \<Longrightarrow> ids (snd (getId G s h)) h = Some (fst (getId G s h))"
  by (auto simp: getId_unfold split: option.splits)

lemma getId_fresh:
  "is_object_like h \<Longrightarrow> ids s h = None \<Longrightarrow> fst (getId G s h) = Str (G (guid_calls s))"
  by (simp add: getId_unfold)

lemma getId_ok:
  assumes "inj G" "registry_ok G s"
  shows "registry_ok G (snd (getId G s x))"
proof (cases "is_object_like x \<and> ids s x = None")
  case False
  then show ?thesis using assms(2) by (auto simp: getId_unfold split: option.splits)
next
  case True
  let ?n = "guid_calls s"
  let ?s' = "s\<lparr>ids := (ids s)(x \<mapsto> Str (G ?n)), guid_calls := Suc ?n,
                reactElements := (reactElements s)(Str (G ?n) \<mapsto> x)\<rparr>"
  have s': "snd (getId G s x) = ?s'" using True by (simp add: getId_unfold)
  have old: "\<And>k. k < ?n \<Longrightarrow> Str (G k) \<noteq> Str (G ?n)"
    using assms(1) by (auto dest: injD)
  have "registry_ok G ?s'"
    unfolding registry_ok_def
  proof (intro conjI allI impI)
    fix h t assume ht: "ids ?s' h = Some t"
    show "is_object_like h"
      using ht True assms(2) by (auto simp: registry_ok_def split: if_splits)
    show "\<exists>k<guid_calls ?s'. t = Str (G k)"
      using ht assms(2) by (auto simp: registry_ok_def less_Suc_eq split: if_splits)
    show "reactElements ?s' t = Some h"
    proof (cases "h = x")
      case True
      then show ?thesis using ht by simp
    next
      case False
      then have "ids s h = Some t" using ht by simp
      then have "(\<exists>k<?n. t = Str (G k)) \<and> reactElements s t = Some h"
        using assms(2) by (auto simp: registry_ok_def)
      then show ?thesis using old by auto
    qed
  next
    fix t h assume "reactElements ?s' t = Some h"
    then show "\<exists>k<guid_calls ?s'. t = Str (G k)"
      using assms(2) by (auto simp: registry_ok_def less_Suc_eq split: if_splits)
  qed
  then show ?thesis by (simp add: s')
qed

lemma registry_tokens_distinct:
  assumes "registry_ok G s" "ids s h1 = Some t1" "ids s h2 = Some t2" "h1 \<noteq> h2"
  shows "t1 \<noteq> t2"
proof
  assume "t1 = t2"
  have "reactElements s t1 = Some h1" "reactElements s t2 = Some h2"
    using assms(1-3) by (simp_all add: registry_ok_def)
  with \<open>t1 = t2\<close> assms(4) show False by simp
qed

lemma registry_forget:
  "registry_ok G s \<Longrightarrow> registry_ok G (s\<lparr>ids := (ids s)(h := None)\<rparr>)"
  by (auto simp: registry_ok_def)


lemma getId_passthrough: "\<not> is_object_like x \<Longrightarrow> getId G s x = (x, s)"
  by (simp add: getId_def is_object_like_def)

lemma map_getId_Cons:
  "map_getId G s (c # cs) =
     (fst (getId G s c) # fst (map_getId G (snd (getId G s c)) cs),
      snd (map_getId G (snd (getId G s c)) cs))"
  by (simp split: prod.splits)

lemma map_getId_ok:
  "inj G \<Longrightarrow> registry_ok G s \<Longrightarrow> registry_ok G (snd (map_getId G s cs))"
proof (induction cs arbitrary: s)
  case Nil
  then show ?case by simp
next
  case (Cons c cs)
  have "registry_ok G (snd (getId G s c))" using Cons.prems by (rule getId_ok)
  from Cons.IH [OF Cons.prems(1) this] show ?case
    by (simp only: map_getId_Cons snd_conv)
qed

lemma map_getId_keeps:
  "ids s h = Some t \<Longrightarrow> ids (snd (map_getId G s cs)) h = Some t"
proof (induction cs arbitrary: s)
  case Nil
  then show ?case by simp
next
  case (Cons c cs)
  have "ids (snd (getId G s c)) h = Some t" using Cons.prems by (rule getId_keeps)
  from Cons.IH [OF this] show ?case by (simp only: map_getId_Cons snd_conv)
qed

lemma map_getId_store:
  "elementData (snd (map_getId G s cs)) = elementData s
   \<and> roots (snd (map_getId G s cs)) = roots s
   \<and> renderers (snd (map_getId G s cs)) = renderers s
   \<and> emitted (snd (map_getId G s cs)) = emitted s"
proof (induction cs arbitrary: s)
  case Nil
  then show ?case by simp
next
  case (Cons c cs)
  from Cons.IH [of "snd (getId G s c)"] show ?case
    by (simp only: map_getId_Cons snd_conv getId_store)
qed

lemma map_getId_length: "length (fst (map_getId G s cs)) = length cs"
  by (induction cs arbitrary: s) (simp_all only: map_getId_Cons fst_conv map_getId.simps list.size)

lemma getId_settled:
  assumes "registry_ok G s" "getId G s c = (t, s1)" "\<forall>h u. ids s1 h = Some u \<longrightarrow> ids s2 h = Some u"
  shows "getId G s2 c = (t, s2)"
proof (cases "is_object_like c")
  case False
  then show ?thesis using assms(2) by (simp add: getId_passthrough)
next
  case True
  have "ids s1 c = Some t" using getId_registers [OF True, of G s] assms(2) by simp
  then have "ids s2 c = Some t" using assms(3) by blast
  then show ?thesis using True by (rule getId_known)
qed

lemma map_getId_result:
  assumes "inj G" "registry_ok G s" "\<forall>h u. ids (snd (map_getId G s cs)) h = Some u \<longrightarrow> ids s2 h = Some u"
    "j < length cs"
  shows "getId G s2 (cs ! j) = (fst (map_getId G s cs) ! j, s2)"
  using assms
proof (induction cs arbitrary: s j)
  case Nil
  then show ?case by simp
next
  case (Cons c cs)
  obtain t s1 where g: "getId G s c = (t, s1)" by (cases "getId G s c")
  obtain ts s3 where m: "map_getId G s1 cs = (ts, s3)" by (cases "map_getId G s1 cs")
  have ok1: "registry_ok G s1" using getId_ok [OF Cons.prems(1,2), of c] g by simp
  have fin: "\<forall>h u. ids s3 h = Some u \<longrightarrow> ids s2 h = Some u"
    using Cons.prems(3) g m by simp
  show ?case
  proof (cases j)
    case 0
    have "\<forall>h u. ids s1 h = Some u \<longrightarrow> ids s2 h = Some u"
      using fin map_getId_keeps [of s1 _ _ G cs] m by (metis snd_conv)
    from getId_settled [OF Cons.prems(2) g this] show ?thesis
      using 0 g m by simp
  next
    case (Suc j')
    have "getId G s2 (cs ! j') = (fst (map_getId G s1 cs) ! j', s2)"
      using Cons.IH [OF Cons.prems(1) ok1, of j'] fin m Cons.prems(4) Suc by simp
    then show ?thesis using Suc g m by simp
  qed
qed

lemma token_not_object: "registry_ok G s \<Longrightarrow> ids s h = Some t \<Longrightarrow> \<not> is_object_like t"
  by (fastforce simp: registry_ok_def is_object_like_def)

lemma getId_result_not_object:
  assumes "registry_ok G s" "getId G s c = (t, s)"
  shows "\<not> is_object_like t"
proof (cases "is_object_like c")
  case False
  then show ?thesis using assms(2) by (simp add: getId_passthrough)
next
  case True
  have "ids s c = Some t" using getId_registers [OF True, of G s] assms(2) by simp
  with assms(1) show ?thesis by (rule token_not_object)
qed

subsection \<open>The record that is sent\<close>

lemma map_of_set_prop:
  "map_of (set_prop kvs k v) k' = (if k' = k then Some v else map_of kvs k')"
  by (induction kvs) auto

lemma map_of_delete_prop:
  "map_of (delete_prop kvs k) k' = (if k' = k then None else map_of kvs k')"
  by (induction kvs) (auto simp: delete_prop_def)

lemma get_prop_Obj: "get_prop (Obj kvs) k = (case map_of kvs k of None \<Rightarrow> Undefined | Some v \<Rightarrow> v)"
  by simp

lemma get_prop_own: "k \<noteq> ''length'' \<Longrightarrow> get_prop (Obj (own_props data)) k = get_prop data k"
  by (cases data) simp_all

text \<open>What lines 361-364 leave in the record that is sent.\<close>

lemma finish_send:
  assumes "send5 = delete_prop (delete_prop (set_prop (set_prop send1 ''id'' eid) ''canUpdate'' cu)
                     ''type'') ''updater''"
  shows "map_of send5 ''id'' = Some eid" "map_of send5 ''canUpdate'' = Some cu"
    "map_of send5 ''type'' = None" "map_of send5 ''updater'' = None"
    "map_of send5 ''children'' = map_of send1 ''children''"
    "map_of send5 ''name'' = map_of send1 ''name''"
  using assms by (simp_all add: map_of_set_prop map_of_delete_prop)

lemma make_send_array:
  assumes "get_prop data ''children'' = Arr cs"
  shows "\<exists>send. make_send G s eid data = Inr (send, snd (map_getId G s cs))
           \<and> map_of send ''children'' = Some (Arr (fst (map_getId G s cs)))
           \<and> map_of send ''id'' = Some eid
           \<and> map_of send ''type'' = None \<and> map_of send ''updater'' = None
           \<and> map_of send ''canUpdate'' =
               Some (js_and (get_prop data ''updater'')
                            (not_not (get_prop (get_prop data ''updater'') ''forceUpdate'')))"
proof -
  let ?send1 = "set_prop (own_props data) ''children'' (Arr (fst (map_getId G s cs)))"
  let ?cu = "js_and (get_prop data ''updater'')
                    (not_not (get_prop (get_prop data ''updater'') ''forceUpdate''))"
  let ?send5 = "delete_prop (delete_prop (set_prop (set_prop ?send1 ''id'' eid) ''canUpdate'' ?cu)
                     ''type'') ''updater''"
  have ch: "get_prop (Obj (own_props data)) ''children'' = Arr cs"
    using assms get_prop_own [of "''children''" data] by simp
  have up: "(case map_of (own_props data) ''updater'' of None \<Rightarrow> Undefined | Some v \<Rightarrow> v)
              = get_prop data ''updater''"
    using get_prop_own [of "''updater''" data] by simp
  have "make_send G s eid data = Inr (?send5, snd (map_getId G s cs))"
    unfolding make_send_def Let_def ch
    by (simp add: has_map_def map_of_set_prop up split: prod.splits)
  moreover have "map_of ?send1 ''children'' = Some (Arr (fst (map_getId G s cs)))"
    by (simp add: map_of_set_prop)
  ultimately show ?thesis
    using finish_send [OF refl, of ?send1 eid ?cu] by simp
qed

lemma make_send_state:
  "(case make_send G s eid data of Inl (e, s') \<Rightarrow> s' | Inr (send, s') \<Rightarrow> s') = s
   \<or> (\<exists>cs. (case make_send G s eid data of Inl (e, s') \<Rightarrow> s' | Inr (send, s') \<Rightarrow> s')
          = snd (map_getId G s cs))"
  unfolding make_send_def Let_def
  by (auto split: jsval.splits prod.splits) (metis snd_conv)

subsection \<open>The registry along a run\<close>

lemma getIDForNode_loop_first:
  "\<not> truthy component \<Longrightarrow>
   getIDForNode_loop G s node component rs =
     (case first_match (map snd rs) node of None \<Rightarrow> (Null, s) | Some c \<Rightarrow> getId G s c)"
proof (induction rs arbitrary: component)
  case Nil
  then show ?case by simp
next
  case (Cons rh rs)
  obtain r h where rh: "rh = (r, h)" by (cases rh)
  show ?case
  proof (cases "matches h node")
    case None
    then have falsy: "\<not> truthy (case call_getReactElementFromNative h node of
                                  Inl e \<Rightarrow> component | Inr c \<Rightarrow> c)"
      using Cons.prems
      by (auto simp: matches_def call_getReactElementFromNative_def
               split: option.splits sum.splits if_splits)
    show ?thesis
      using None falsy Cons.IH [OF falsy] by (simp add: rh Let_def)
  next
    case (Some c)
    then have "call_getReactElementFromNative h node = Inr c \<and> truthy c"
      by (auto simp: matches_def call_getReactElementFromNative_def
               split: option.splits sum.splits if_splits)
    with Some show ?thesis by (simp add: rh Let_def)
  qed
qed

lemma registry_ok_fields:
  "registry_ok G (s\<lparr>renderers := r\<rparr>) = registry_ok G s"
  "registry_ok G (s\<lparr>elementData := d\<rparr>) = registry_ok G s"
  "registry_ok G (s\<lparr>roots := ro\<rparr>) = registry_ok G s"
  "registry_ok G (emit s ev args) = registry_ok G s"
  by (simp_all add: registry_ok_def emit_registry)

lemma addRoot_unfold:
  "addRoot G s r x =
     emit ((snd (getId G s x))\<lparr>roots := insert (fst (getId G s x)) (roots (snd (getId G s x)))\<rparr>)
       ''root'' [fst (getId G s x)]"
  by (simp add: addRoot_def split: prod.splits)

lemma addRoot_ok: "inj G \<Longrightarrow> registry_ok G s \<Longrightarrow> registry_ok G (addRoot G s r h)"
  using getId_ok [of G s h]
  by (simp add: addRoot_unfold registry_ok_fields)

lemma addRoot_keeps: "ids s h = Some t \<Longrightarrow> ids (addRoot G s r x) h = Some t"
  using getId_keeps [of s h t G x]
  by (simp add: addRoot_unfold emit_registry)

lemma make_send_ok:
  assumes "inj G" "registry_ok G s"
  shows "registry_ok G (case make_send G s eid data of Inl (e, s') \<Rightarrow> s' | Inr (send, s') \<Rightarrow> s')"
  using make_send_state [of G s eid data] map_getId_ok [OF assms] assms(2) by auto

lemma make_send_keeps:
  assumes "ids s h = Some t"
  shows "ids (case make_send G s eid data of Inl (e, s') \<Rightarrow> s' | Inr (send, s') \<Rightarrow> s') h = Some t"
  using make_send_state [of G s eid data] map_getId_keeps [OF assms] assms by auto

lemma onMounted_state:
  "after_partial (onMounted G s r x data) =
     (let s3 = (snd (getId G s x))\<lparr>renderers := (renderers (snd (getId G s x)))(fst (getId G s x) \<mapsto> r),
                                  elementData := (elementData (snd (getId G s x)))(fst (getId G s x) \<mapsto> data)\<rparr>
      in case make_send G s3 (fst (getId G s x)) data of
           Inl (e, s') \<Rightarrow> s'
         | Inr (send, s') \<Rightarrow> emit s' ''mount'' [Obj send])"
  by (simp add: onMounted_def after_partial_def Let_def split: prod.splits sum.splits)

lemma onUpdated_state:
  "after_partial (onUpdated G s x data) =
     (let s2 = (snd (getId G s x))\<lparr>elementData := (elementData (snd (getId G s x)))(fst (getId G s x) \<mapsto> data)\<rparr>
      in case make_send G s2 (fst (getId G s x)) data of
           Inl (e, s') \<Rightarrow> s'
         | Inr (send, s') \<Rightarrow> emit s' ''update'' [Obj send])"
  by (simp add: onUpdated_def after_partial_def Let_def split: prod.splits sum.splits)

lemma onMounted_ok:
  assumes "inj G" "registry_ok G s"
  shows "registry_ok G (after_partial (onMounted G s r x data))"
proof -
  let ?s3 = "(snd (getId G s x))\<lparr>renderers := (renderers (snd (getId G s x)))(fst (getId G s x) \<mapsto> r),
                                  elementData := (elementData (snd (getId G s x)))(fst (getId G s x) \<mapsto> data)\<rparr>"
  have "registry_ok G ?s3" using getId_ok [OF assms, of x] by (simp add: registry_ok_fields)
  from make_send_ok [OF assms(1) this, of "fst (getId G s x)" data] show ?thesis
    by (simp add: onMounted_state Let_def registry_ok_fields split: sum.splits prod.splits)
qed

lemma onMounted_keeps:
  assumes "ids s h = Some t"
  shows "ids (after_partial (onMounted G s r x data)) h = Some t"
proof -
  let ?s3 = "(snd (getId G s x))\<lparr>renderers := (renderers (snd (getId G s x)))(fst (getId G s x) \<mapsto> r),
                                  elementData := (elementData (snd (getId G s x)))(fst (getId G s x) \<mapsto> data)\<rparr>"
  have "ids ?s3 h = Some t" using getId_keeps [OF assms, of G x] by simp
  from make_send_keeps [OF this, of G "fst (getId G s x)" data] show ?thesis
    by (simp add: onMounted_state Let_def emit_registry split: sum.splits prod.splits)
qed

lemma onUpdated_ok:
  assumes "inj G" "registry_ok G s"
  shows "registry_ok G (after_partial (onUpdated G s x data))"
proof -
  let ?s2 = "(snd (getId G s x))\<lparr>elementData := (elementData (snd (getId G s x)))(fst (getId G s x) \<mapsto> data)\<rparr>"
  have "registry_ok G ?s2" using getId_ok [OF assms, of x] by (simp add: registry_ok_fields)
  from make_send_ok [OF assms(1) this, of "fst (getId G s x)" data] show ?thesis
    by (simp add: onUpdated_state Let_def registry_ok_fields split: sum.splits prod.splits)
qed

lemma onUpdated_keeps:
  assumes "ids s h = Some t"
  shows "ids (after_partial (onUpdated G s x data)) h = Some t"
proof -
  let ?s2 = "(snd (getId G s x))\<lparr>elementData := (elementData (snd (getId G s x)))(fst (getId G s x) \<mapsto> data)\<rparr>"
  have "ids ?s2 h = Some t" using getId_keeps [OF assms, of G x] by simp
  from make_send_keeps [OF this, of G "fst (getId G s x)" data] show ?thesis
    by (simp add: onUpdated_state Let_def emit_registry split: sum.splits prod.splits)
qed

lemma onUnmounted_unfold:
  "onUnmounted G s x =
     (emit ((snd (getId G s x))
              \<lparr>elementData := (elementData (snd (getId G s x)))(fst (getId G s x) := None),
               roots := roots (snd (getId G s x)) - {fst (getId G s x)},
               renderers := (renderers (snd (getId G s x)))(fst (getId G s x) := None)\<rparr>)
           ''unmount'' [fst (getId G s x)])
     \<lparr>ids := (ids (snd (getId G s x)))(x := None)\<rparr>"
  by (simp add: onUnmounted_def Let_def emit_registry split: prod.splits)

lemma onUnmounted_ok:
  assumes "inj G" "registry_ok G s"
  shows "registry_ok G (onUnmounted G s x)"
proof -
  have "registry_ok G (snd (getId G s x))" using assms by (rule getId_ok)
  then show ?thesis
    unfolding onUnmounted_unfold
    by (auto simp: registry_ok_def emit_registry)
qed

lemma onUnmounted_keeps:
  "ids s h = Some t \<Longrightarrow> x \<noteq> h \<Longrightarrow> ids (onUnmounted G s x) h = Some t"
  using getId_keeps [of s h t G x] by (simp add: onUnmounted_unfold)

lemma getIDForNode_state:
  "snd (getIDForNode G s node) = s \<or> (\<exists>c. snd (getIDForNode G s node) = snd (getId G s c))"
  by (auto simp: getIDForNode_def getIDForNode_loop_first split: option.splits)

lemma selectFromDOMNode_registry:
  "ids (selectFromDOMNode G s node q) = ids (snd (getIDForNode G s node))
   \<and> reactElements (selectFromDOMNode G s node q) = reactElements (snd (getIDForNode G s node))
   \<and> guid_calls (selectFromDOMNode G s node q) = guid_calls (snd (getIDForNode G s node))"
  by (simp add: selectFromDOMNode_def emit_registry split: prod.splits)

lemma selectFromReactInstance_registry:
  "ids (selectFromReactInstance G s x q) = ids (snd (getId G s x))
   \<and> reactElements (selectFromReactInstance G s x q) = reactElements (snd (getId G s x))
   \<and> guid_calls (selectFromReactInstance G s x q) = guid_calls (snd (getId G s x))"
  by (simp add: selectFromReactInstance_def emit_registry console_log_def split: prod.splits)

lemma after_neutral:
  assumes "\<And>s'. r = Inr s' \<Longrightarrow>
             ids s' = ids s \<and> reactElements s' = reactElements s \<and> guid_calls s' = guid_calls s"
  shows "ids (after s r) = ids s \<and> reactElements (after s r) = reactElements s
         \<and> guid_calls (after s r) = guid_calls s"
  using assms by (cases r) (simp_all add: after_def)

lemma highlight_neutral:
  "ids (after s (highlight s eid)) = ids s
   \<and> reactElements (after s (highlight s eid)) = reactElements s
   \<and> guid_calls (after s (highlight s eid)) = guid_calls s"
  by (rule after_neutral)
     (auto simp: highlight_def Let_def emit_registry split: sum.splits if_splits)

lemma highlightMany_neutral:
  "ids (after s (highlightMany s eids)) = ids s
   \<and> reactElements (after s (highlightMany s eids)) = reactElements s
   \<and> guid_calls (after s (highlightMany s eids)) = guid_calls s"
  by (rule after_neutral)
     (auto simp: highlightMany_def emit_registry split: sum.splits if_splits)

lemma setProps_neutral:
  "ids (after s (setProps s eid p v)) = ids s
   \<and> reactElements (after s (setProps s eid p v)) = reactElements s
   \<and> guid_calls (after s (setProps s eid p v)) = guid_calls s"
  by (rule after_neutral)
     (auto simp: setProps_def Let_def call_function_def console_warn_def
           split: jsval.splits if_splits)

lemma setState_neutral:
  "ids (after s (setState s eid p v)) = ids s
   \<and> reactElements (after s (setState s eid p v)) = reactElements s
   \<and> guid_calls (after s (setState s eid p v)) = guid_calls s"
  by (rule after_neutral)
     (auto simp: setState_def Let_def call_function_def console_warn_def
           split: jsval.splits if_splits)

lemma setContext_neutral:
  "ids (after s (setContext s eid p v)) = ids s
   \<and> reactElements (after s (setContext s eid p v)) = reactElements s
   \<and> guid_calls (after s (setContext s eid p v)) = guid_calls s"
  by (rule after_neutral)
     (auto simp: setContext_def Let_def call_function_def console_warn_def
           split: jsval.splits if_splits)

lemma makeGlobal_neutral:
  "ids (after s (makeGlobal s eid p)) = ids s
   \<and> reactElements (after s (makeGlobal s eid p)) = reactElements s
   \<and> guid_calls (after s (makeGlobal s eid p)) = guid_calls s"
  by (rule after_neutral)
     (auto simp: makeGlobal_def Let_def console_log_def split: sum.splits if_splits)

lemma run_callbacks_neutral:
  "ids (run_callbacks s cbs) = ids s \<and> reactElements (run_callbacks s cbs) = reactElements s
   \<and> guid_calls (run_callbacks s cbs) = guid_calls s"
proof (induction cbs arbitrary: s)
  case Nil
  then show ?case by simp
next
  case (Cons cb cbs)
  show ?case
    using Cons.IH [of "updateScroll s"]
    by (cases cb) (simp add: updateScroll_def emit_registry)
qed

lemma step_neutral:
  assumes "\<forall>r x. c \<noteq> AddRoot r x" "\<forall>r x d. c \<noteq> OnMounted r x d" "\<forall>x d. c \<noteq> OnUpdated x d"
    "\<forall>x. c \<noteq> OnUnmounted x" "\<forall>n. c \<noteq> GetIDForNode n"
    "\<forall>n q. c \<noteq> SelectFromDOMNode n q" "\<forall>x q. c \<noteq> SelectFromReactInstance x q"
  shows "ids (step G s c) = ids s \<and> reactElements (step G s c) = reactElements s
         \<and> guid_calls (step G s c) = guid_calls s"
proof (cases c)
  case (SetReactInternals r h)
  then show ?thesis by (simp add: setReactInternals_def)
next
  case (Highlight eid)
  then show ?thesis using highlight_neutral by simp
next
  case (HighlightMany eids)
  then show ?thesis using highlightMany_neutral by simp
next
  case (SetProps eid p v)
  then show ?thesis using setProps_neutral by simp
next
  case (SetState eid p v)
  then show ?thesis using setState_neutral by simp
next
  case (SetContext eid p v)
  then show ?thesis using setContext_neutral by simp
next
  case (MakeGlobal eid p)
  then show ?thesis using makeGlobal_neutral by simp
next
  case (Selected eid)
  then show ?thesis by (simp add: emit_registry)
next
  case Scroll
  then show ?thesis by (simp add: onScroll_def)
next
  case AnimationFrame
  then show ?thesis
    using run_callbacks_neutral [of "s\<lparr>frame_requests := []\<rparr>" "frame_requests s"]
    by (simp add: animation_frame_def)
qed (use assms in simp_all)

lemma step_ok:
  assumes "inj G" "registry_ok G s"
  shows "registry_ok G (step G s c)"
proof (cases c)
  case (AddRoot r x)
  then show ?thesis using addRoot_ok [OF assms] by simp
next
  case (OnMounted r x d)
  then show ?thesis using onMounted_ok [OF assms] by simp
next
  case (OnUpdated x d)
  then show ?thesis using onUpdated_ok [OF assms] by simp
next
  case (OnUnmounted x)
  then show ?thesis using onUnmounted_ok [OF assms] by simp
next
  case (GetIDForNode n)
  then show ?thesis
    using getIDForNode_state [of G s n] getId_ok [OF assms] assms(2) by auto
next
  case (SelectFromDOMNode n q)
  have "registry_ok G (snd (getIDForNode G s n))"
    using getIDForNode_state [of G s n] getId_ok [OF assms] assms(2) by auto
  then show ?thesis
    using SelectFromDOMNode selectFromDOMNode_registry [of G s n q]
      registry_ok_cong [of "selectFromDOMNode G s n q" "snd (getIDForNode G s n)" G]
    by simp
next
  case (SelectFromReactInstance x q)
  then show ?thesis
    using getId_ok [OF assms, of x] selectFromReactInstance_registry [of G s x q]
      registry_ok_cong [of "selectFromReactInstance G s x q" "snd (getId G s x)" G]
    by simp
qed (use step_neutral [of c G s] assms(2) registry_ok_cong [of "step G s c" s G] in simp_all)

lemma step_keeps:
  assumes "ids s h = Some t" "c \<noteq> OnUnmounted h"
  shows "ids (step G s c) h = Some t"
proof (cases c)
  case (AddRoot r x)
  then show ?thesis using addRoot_keeps [OF assms(1)] by simp
next
  case (OnMounted r x d)
  then show ?thesis using onMounted_keeps [OF assms(1)] by simp
next
  case (OnUpdated x d)
  then show ?thesis using onUpdated_keeps [OF assms(1)] by simp
next
  case (OnUnmounted x)
  then show ?thesis using onUnmounted_keeps [OF assms(1), of x] assms(2) by simp
next
  case (GetIDForNode n)
  then show ?thesis
    using getIDForNode_state [of G s n] getId_keeps [OF assms(1), of G] assms(1) by auto
next
  case (SelectFromDOMNode n q)
  have "ids (snd (getIDForNode G s n)) h = Some t"
    using getIDForNode_state [of G s n] getId_keeps [OF assms(1), of G] assms(1) by auto
  then show ?thesis
    using SelectFromDOMNode selectFromDOMNode_registry [of G s n q] by simp
next
  case (SelectFromReactInstance x q)
  then show ?thesis
    using getId_keeps [OF assms(1), of G x] selectFromReactInstance_registry [of G s x q]
    by simp
qed (use step_neutral [of c G s] assms(1) in simp_all)

lemma run_ok: "inj G \<Longrightarrow> registry_ok G s \<Longrightarrow> registry_ok G (run G s cs)"
  by (induction cs arbitrary: s) (simp_all add: step_ok)

lemma run_keeps:
  "ids s h = Some t \<Longrightarrow> OnUnmounted h \<notin> set cs \<Longrightarrow> ids (run G s cs) h = Some t"
proof (induction cs arbitrary: s)
  case Nil
  then show ?case by simp
next
  case (Cons c cs)
  have "c \<noteq> OnUnmounted h" using Cons.prems(2) by auto
  from step_keeps [OF Cons.prems(1) this] have "ids (step G s c) h = Some t" .
  from Cons.IH [OF this] Cons.prems(2) show ?case by simp
qed

lemma reachable_ok: "inj G \<Longrightarrow> registry_ok G (run G (new_Agent g) cs)"
  by (simp add: run_ok registry_ok_new)

lemma inj_unary_guid: "inj unary_guid"
proof (rule injI)
  fix x y assume "unary_guid x = unary_guid y"
  then have "length (unary_guid x) = length (unary_guid y)" by simp
  then show "x = y" by (simp add: unary_guid_def)
qed

subsection \<open>The reverse table along a run\<close>

lemma registry_reverse_fields:
  "reactElements (s\<lparr>renderers := r\<rparr>) = reactElements s"
  "reactElements (s\<lparr>elementData := d\<rparr>) = reactElements s"
  "reactElements (s\<lparr>roots := ro\<rparr>) = reactElements s"
  "reactElements (s\<lparr>ids := i\<rparr>) = reactElements s"
  by simp_all

lemma map_getId_keeps_reverse:
  "inj G \<Longrightarrow> registry_ok G s \<Longrightarrow> reactElements s t = Some h \<Longrightarrow>
   reactElements (snd (map_getId G s cs)) t = Some h"
proof (induction cs arbitrary: s)
  case Nil
  then show ?case by simp
next
  case (Cons c cs)
  have ok: "registry_ok G (snd (getId G s c))" using Cons.prems(1,2) by (rule getId_ok)
  have "reactElements (snd (getId G s c)) t = Some h"
    using Cons.prems by (rule getId_keeps_reverse)
  from Cons.IH [OF Cons.prems(1) ok this] show ?case
    by (simp only: map_getId_Cons snd_conv)
qed

lemma make_send_keeps_reverse:
  assumes "inj G" "registry_ok G s" "reactElements s t = Some h"
  shows "reactElements (case make_send G s eid data of Inl (e, s') \<Rightarrow> s' | Inr (send, s') \<Rightarrow> s') t
           = Some h"
  using make_send_state [of G s eid data] map_getId_keeps_reverse [OF assms] assms(3) by auto

lemma addRoot_keeps_reverse:
  assumes "inj G" "registry_ok G s" "reactElements s t = Some h"
  shows "reactElements (addRoot G s r x) t = Some h"
  using getId_keeps_reverse [OF assms, of x] by (simp add: addRoot_unfold emit_registry)

lemma onMounted_keeps_reverse:
  assumes "inj G" "registry_ok G s" "reactElements s t = Some h"
  shows "reactElements (after_partial (onMounted G s r x data)) t = Some h"
proof -
  let ?s3 = "(snd (getId G s x))\<lparr>renderers := (renderers (snd (getId G s x)))(fst (getId G s x) \<mapsto> r),
                                  elementData := (elementData (snd (getId G s x)))(fst (getId G s x) \<mapsto> data)\<rparr>"
  have ok: "registry_ok G ?s3" using getId_ok [OF assms(1,2), of x] by (simp add: registry_ok_fields)
  have "reactElements ?s3 t = Some h" using getId_keeps_reverse [OF assms, of x] by simp
  from make_send_keeps_reverse [OF assms(1) ok this, of "fst (getId G s x)" data] show ?thesis
    by (simp add: onMounted_state Let_def emit_registry split: sum.splits prod.splits)
qed

lemma onUpdated_keeps_reverse:
  assumes "inj G" "registry_ok G s" "reactElements s t = Some h"
  shows "reactElements (after_partial (onUpdated G s x data)) t = Some h"
proof -
  let ?s2 = "(snd (getId G s x))\<lparr>elementData := (elementData (snd (getId G s x)))(fst (getId G s x) \<mapsto> data)\<rparr>"
  have ok: "registry_ok G ?s2" using getId_ok [OF assms(1,2), of x] by (simp add: registry_ok_fields)
  have "reactElements ?s2 t = Some h" using getId_keeps_reverse [OF assms, of x] by simp
  from make_send_keeps_reverse [OF assms(1) ok this, of "fst (getId G s x)" data] show ?thesis
    by (simp add: onUpdated_state Let_def emit_registry split: sum.splits prod.splits)
qed

lemma onUnmounted_keeps_reverse:
  assumes "inj G" "registry_ok G s" "reactElements s t = Some h"
  shows "reactElements (onUnmounted G s x) t = Some h"
  using getId_keeps_reverse [OF assms, of x] by (simp add: onUnmounted_unfold emit_registry)

lemma getIDForNode_keeps_reverse:
  assumes "inj G" "registry_ok G s" "reactElements s t = Some h"
  shows "reactElements (snd (getIDForNode G s n)) t = Some h"
  using getIDForNode_state [of G s n] getId_keeps_reverse [OF assms] assms(3) by auto

lemma step_keeps_reverse:
  assumes "inj G" "registry_ok G s" "reactElements s t = Some h"
  shows "reactElements (step G s c) t = Some h"
proof (cases c)
  case (AddRoot r x)
  then show ?thesis using addRoot_keeps_reverse [OF assms] by simp
next
  case (OnMounted r x d)
  then show ?thesis using onMounted_keeps_reverse [OF assms] by simp
next
  case (OnUpdated x d)
  then show ?thesis using onUpdated_keeps_reverse [OF assms] by simp
next
  case (OnUnmounted x)
  then show ?thesis using onUnmounted_keeps_reverse [OF assms] by simp
next
  case (GetIDForNode n)
  then show ?thesis using getIDForNode_keeps_reverse [OF assms] by simp
next
  case (SelectFromDOMNode n q)
  then show ?thesis
    using getIDForNode_keeps_reverse [OF assms, of n] selectFromDOMNode_registry [of G s n q]
    by simp
next
  case (SelectFromReactInstance x q)
  then show ?thesis
    using getId_keeps_reverse [OF assms, of x] selectFromReactInstance_registry [of G s x q]
    by simp
qed (use step_neutral [of c G s] assms(3) in simp_all)

lemma run_keeps_reverse:
  "inj G \<Longrightarrow> registry_ok G s \<Longrightarrow> reactElements s t = Some h \<Longrightarrow>
   reactElements (run G s cs) t = Some h"
proof (induction cs arbitrary: s)
  case Nil
  then show ?case by simp
next
  case (Cons c cs)
  have ok: "registry_ok G (step G s c)" using Cons.prems(1,2) by (rule step_ok)
  have "reactElements (step G s c) t = Some h" using Cons.prems by (rule step_keeps_reverse)
  from Cons.IH [OF Cons.prems(1) ok this] show ?case by simp
qed

lemma registry_reverse: "registry_ok G s \<Longrightarrow> ids s h = Some t \<Longrightarrow> reactElements s t = Some h"
  by (simp add: registry_ok_def)

lemma registry_object: "registry_ok G s \<Longrightarrow> ids s h = Some t \<Longrightarrow> is_object_like h"
  by (simp add: registry_ok_def)

lemma registry_issued:
  "registry_ok G s \<Longrightarrow> ids s h = Some t \<Longrightarrow> \<exists>k<guid_calls s. t = Str (G k)"
  by (simp add: registry_ok_def)

lemma onUnmounted_known:
  assumes "registry_ok G s" "ids s h = Some i"
  shows "onUnmounted G s h =
     (emit (s\<lparr>elementData := (elementData s)(i := None), roots := roots s - {i},
               renderers := (renderers s)(i := None)\<rparr>) ''unmount'' [i])
     \<lparr>ids := (ids s)(h := None)\<rparr>"
proof -
  have "getId G s h = (i, s)" using assms by (simp add: getId_known registry_object)
  then show ?thesis by (simp add: onUnmounted_unfold)
qed

lemma make_send_fields:
  assumes "make_send G s eid data = Inr (send, s')"
  shows "map_of send ''id'' = Some eid
       \<and> map_of send ''canUpdate'' =
           Some (js_and (get_prop data ''updater'')
                        (not_not (get_prop (get_prop data ''updater'') ''forceUpdate'')))
       \<and> map_of send ''type'' = None \<and> map_of send ''updater'' = None"
proof -
  have up: "(case map_of (own_props data) ''updater'' of None \<Rightarrow> Undefined | Some v \<Rightarrow> v)
              = get_prop data ''updater''"
    using get_prop_own [of "''updater''" data] by simp
  show ?thesis
    using assms unfolding make_send_def Let_def
    by (auto simp: map_of_set_prop map_of_delete_prop up
             split: if_splits jsval.splits prod.splits)
qed

lemma getId_again:
  assumes "ids s2 = ids (snd (getId G s h))"
  shows "getId G s2 h = (fst (getId G s h), s2)"
proof (cases "is_object_like h")
  case False
  then show ?thesis by (simp add: getId_passthrough)
next
  case True
  have "ids s2 h = Some (fst (getId G s h))"
    using getId_registers [OF True, of G s] assms by simp
  then show ?thesis using True by (rule getId_known)
qed

lemma sample_ok: "registry_ok unary_guid sample_agent"
  unfolding sample_agent_def fresh_agent_def by (rule reachable_ok [OF inj_unary_guid])

lemma fresh_ok: "registry_ok unary_guid fresh_agent"
  unfolding fresh_agent_def by (rule registry_ok_new)

lemma sample_unmounted_eval:
  "onUnmounted unary_guid sample_agent (Ref 1) =
     sample_agent\<lparr>ids := [Ref 2 \<mapsto> Str ''gg''], elementData := Map.empty, roots := {},
                  renderers := Map.empty,
                  emitted := emitted sample_agent @ [(''unmount'', [Str ''g''])]\<rparr>"
  by (simp add: sample_agent_eval onUnmounted_def getId_def map_get_def emit_def Let_def
        fun_upd_twist)

subsection \<open>The contract of getId\<close>

text \<open>
  C2. On a consistent registry, with a token generator that never repeats: getId returns
  a value that is not object-like unchanged and leaves the state alone; for an object-like
  handle it returns a token under which the handle is then registered, a second call
  returns the same token and changes nothing, and so does a call after any run of calls
  that does not unmount the handle; two distinct object-like handles get different
  tokens, and two distinct handles that are registered have different tokens.
\<close>

theorem getId_contract:
  assumes gen: "inj G" and ok: "registry_ok G s"
  shows "(\<not> is_object_like x \<longrightarrow> getId G s x = (x, s))
       \<and> (is_object_like h \<longrightarrow>
            ids (snd (getId G s h)) h = Some (fst (getId G s h))
            \<and> getId G (snd (getId G s h)) h = (fst (getId G s h), snd (getId G s h))
            \<and> (\<forall>cs. OnUnmounted h \<notin> set cs \<longrightarrow>
                  getId G (run G (snd (getId G s h)) cs) h
                    = (fst (getId G s h), run G (snd (getId G s h)) cs)))
       \<and> (is_object_like h1 \<and> is_object_like h2 \<and> h1 \<noteq> h2 \<longrightarrow>
            fst (getId G s h1) \<noteq> fst (getId G (snd (getId G s h1)) h2))
       \<and> (ids s h1 = Some t1 \<and> ids s h2 = Some t2 \<and> h1 \<noteq> h2 \<longrightarrow> t1 \<noteq> t2)"
proof -
  have pass: "\<not> is_object_like x \<longrightarrow> getId G s x = (x, s)"
    by (simp add: getId_passthrough)
  have stable: "is_object_like h \<longrightarrow>
            ids (snd (getId G s h)) h = Some (fst (getId G s h))
            \<and> getId G (snd (getId G s h)) h = (fst (getId G s h), snd (getId G s h))
            \<and> (\<forall>cs. OnUnmounted h \<notin> set cs \<longrightarrow>
                  getId G (run G (snd (getId G s h)) cs) h
                    = (fst (getId G s h), run G (snd (getId G s h)) cs))"
  proof
    assume obj: "is_object_like h"
    let ?t = "fst (getId G s h)" and ?s1 = "snd (getId G s h)"
    have reg: "ids ?s1 h = Some ?t" using obj by (rule getId_registers)
    have twice: "getId G ?s1 h = (?t, ?s1)" using reg obj by (rule getId_known)
    have later: "\<forall>cs. OnUnmounted h \<notin> set cs \<longrightarrow> getId G (run G ?s1 cs) h = (?t, run G ?s1 cs)"
    proof (intro allI impI)
      fix cs assume "OnUnmounted h \<notin> set cs"
      with reg have "ids (run G ?s1 cs) h = Some ?t" by (rule run_keeps)
      then show "getId G (run G ?s1 cs) h = (?t, run G ?s1 cs)" using obj by (rule getId_known)
    qed
    show "ids ?s1 h = Some ?t \<and> getId G ?s1 h = (?t, ?s1)
          \<and> (\<forall>cs. OnUnmounted h \<notin> set cs \<longrightarrow> getId G (run G ?s1 cs) h = (?t, run G ?s1 cs))"
      using reg twice later by blast
  qed
  have two: "is_object_like h1 \<and> is_object_like h2 \<and> h1 \<noteq> h2 \<longrightarrow>
            fst (getId G s h1) \<noteq> fst (getId G (snd (getId G s h1)) h2)"
  proof
    assume a: "is_object_like h1 \<and> is_object_like h2 \<and> h1 \<noteq> h2"
    let ?s1 = "snd (getId G s h1)"
    let ?s2 = "snd (getId G ?s1 h2)"
    have ok2: "registry_ok G ?s2" using gen ok by (intro getId_ok)
    have r1: "ids ?s2 h1 = Some (fst (getId G s h1))"
      using a by (intro getId_keeps getId_registers) simp
    have r2: "ids ?s2 h2 = Some (fst (getId G ?s1 h2))"
      using a by (intro getId_registers) simp
    from registry_tokens_distinct [OF ok2 r1 r2] a
    show "fst (getId G s h1) \<noteq> fst (getId G ?s1 h2)" by simp
  qed
  have live: "ids s h1 = Some t1 \<and> ids s h2 = Some t2 \<and> h1 \<noteq> h2 \<longrightarrow> t1 \<noteq> t2"
    using registry_tokens_distinct [OF ok] by blast
  show ?thesis using pass stable two live by blast
qed

theorem getId_contract_witness:
  "inj unary_guid \<and> registry_ok unary_guid sample_agent
   \<and> \<not> is_object_like (Str ''abc'')
   \<and> getId unary_guid sample_agent (Str ''abc'') = (Str ''abc'', sample_agent)
   \<and> is_object_like (Ref 1) \<and> is_object_like (Ref 3)
   \<and> getId unary_guid sample_agent (Ref 1) = (Str ''g'', sample_agent)
   \<and> fst (getId unary_guid sample_agent (Ref 3)) = Str ''ggg''
   \<and> fst (getId unary_guid sample_agent (Ref 1))
       \<noteq> fst (getId unary_guid (snd (getId unary_guid sample_agent (Ref 1))) (Ref 3))"
proof -
  have o: "\<not> is_object_like (Str ''abc'')" "is_object_like (Ref 1)" "is_object_like (Ref 3)"
    "Ref 1 \<noteq> Ref 3"
    by (simp_all add: is_object_like_def)
  have e: "getId unary_guid sample_agent (Ref 1) = (Str ''g'', sample_agent)"
    "fst (getId unary_guid sample_agent (Ref 3)) = Str ''ggg''"
    by (simp_all add: getId_def sample_agent_eval map_get_def unary_guid_def eval_nat_numeral)
  show ?thesis
    using getId_contract [OF inj_unary_guid sample_ok, of "Str ''abc''" "Ref 1" "Ref 1" "Ref 3"]
      inj_unary_guid sample_ok o e
    by simp
qed

subsection \<open>Unmounting\<close>

text \<open>
  C3. For a handle \<open>h\<close> registered with the identity \<open>i\<close> (a handle that was mounted),
  after onUnmounted the element store has no snapshot under \<open>i\<close>, the root set does not
  contain \<open>i\<close>, the renderer attribution has no entry for \<open>i\<close>, the handle has no identity
  any more, one \<open>unmount\<close> event carrying \<open>i\<close> was emitted, and the next getId of the
  handle issues the next token of the generator, which is not \<open>i\<close> when the generator
  never repeats.
\<close>

theorem onUnmounted_forgets:
  assumes gen: "inj G" and ok: "registry_ok G s" and live: "ids s h = Some i"
  shows "elementData (onUnmounted G s h) i = None
       \<and> i \<notin> roots (onUnmounted G s h)
       \<and> renderers (onUnmounted G s h) i = None
       \<and> ids (onUnmounted G s h) h = None
       \<and> emitted (onUnmounted G s h) = emitted s @ [(''unmount'', [i])]
       \<and> fst (getId G (onUnmounted G s h) h) = Str (G (guid_calls s))
       \<and> fst (getId G (onUnmounted G s h) h) \<noteq> i
       \<and> ids (snd (getId G (onUnmounted G s h) h)) h = Some (Str (G (guid_calls s)))"
proof -
  let ?s' = "onUnmounted G s h"
  have obj: "is_object_like h" using ok live by (rule registry_object)
  have s': "?s' = (emit (s\<lparr>elementData := (elementData s)(i := None), roots := roots s - {i},
               renderers := (renderers s)(i := None)\<rparr>) ''unmount'' [i])
     \<lparr>ids := (ids s)(h := None)\<rparr>"
    using ok live by (rule onUnmounted_known)
  have store: "elementData ?s' i = None" "i \<notin> roots ?s'" "renderers ?s' i = None"
    "ids ?s' h = None" "guid_calls ?s' = guid_calls s"
    by (simp_all add: s' emit_store emit_registry)
  have ev: "emitted ?s' = emitted s @ [(''unmount'', [i])]"
    by (simp add: s' emit_plain)
  have new: "fst (getId G ?s' h) = Str (G (guid_calls s))"
    using getId_fresh [OF obj store(4), of G] store(5) by simp
  obtain k where k: "k < guid_calls s" "i = Str (G k)"
    using registry_issued [OF ok live] by blast
  have differs: "fst (getId G ?s' h) \<noteq> i"
    using new k gen by (auto dest: injD)
  have again: "ids (snd (getId G ?s' h)) h = Some (Str (G (guid_calls s)))"
    using getId_registers [OF obj, of G ?s'] new by simp
  show ?thesis using store ev new differs again by simp
qed

theorem onUnmounted_forgets_witness:
  "inj unary_guid \<and> registry_ok unary_guid sample_agent
   \<and> ids sample_agent (Ref 1) = Some (Str ''g'')
   \<and> elementData (onUnmounted unary_guid sample_agent (Ref 1)) (Str ''g'') = None
   \<and> Str ''g'' \<notin> roots (onUnmounted unary_guid sample_agent (Ref 1))
   \<and> renderers (onUnmounted unary_guid sample_agent (Ref 1)) (Str ''g'') = None
   \<and> fst (getId unary_guid (onUnmounted unary_guid sample_agent (Ref 1)) (Ref 1)) = Str ''ggg''"
proof -
  have live: "ids sample_agent (Ref 1) = Some (Str ''g'')" by (simp add: sample_agent_eval)
  have n: "Str (unary_guid (guid_calls sample_agent)) = Str ''ggg''"
    by (simp add: sample_agent_eval unary_guid_def eval_nat_numeral)
  show ?thesis
    using onUnmounted_forgets [OF inj_unary_guid sample_ok live] inj_unary_guid sample_ok live
    unfolding n by blast
qed

text \<open>
  C4, as stated, fails: onUnmounted deletes the snapshot and the handle's identity, but
  nothing deletes from reactElements. In the sample session, after the root \<open>Ref 1\<close> with
  identity \<open>g\<close> is unmounted, the element store has no entry for \<open>g\<close> and reactElements
  still maps \<open>g\<close> to \<open>Ref 1\<close>.
\<close>

theorem reverse_entry_survives_unmount:
  "ids sample_agent (Ref 1) = Some (Str ''g'')
   \<and> elementData sample_agent (Str ''g'') = Some root_data
   \<and> elementData (onUnmounted unary_guid sample_agent (Ref 1)) (Str ''g'') = None
   \<and> ids (onUnmounted unary_guid sample_agent (Ref 1)) (Ref 1) = None
   \<and> reactElements (onUnmounted unary_guid sample_agent (Ref 1)) (Str ''g'') = Some (Ref 1)"
  unfolding sample_unmounted_eval by (simp add: sample_agent_eval)

text \<open>
  C4, amended. For a handle \<open>h\<close> registered with the identity \<open>i\<close>, the reverse lookup
  maps \<open>i\<close> to \<open>h\<close>; onUnmounted removes the snapshot of \<open>i\<close> and the identity of \<open>h\<close>
  together and keeps the reverse entry; the reverse entry stays valid after any run of
  calls: it is valid as long as the snapshot exists, and beyond.
\<close>

theorem unmount_keeps_reverse_lookup:
  assumes gen: "inj G" and ok: "registry_ok G s" and live: "ids s h = Some i"
  shows "reactElements s i = Some h
       \<and> elementData (onUnmounted G s h) i = None
       \<and> ids (onUnmounted G s h) h = None
       \<and> reactElements (onUnmounted G s h) i = Some h
       \<and> (\<forall>cs. reactElements (run G s cs) i = Some h)"
proof -
  have rev: "reactElements s i = Some h" using ok live by (rule registry_reverse)
  have s': "onUnmounted G s h = (emit (s\<lparr>elementData := (elementData s)(i := None), roots := roots s - {i},
               renderers := (renderers s)(i := None)\<rparr>) ''unmount'' [i])
     \<lparr>ids := (ids s)(h := None)\<rparr>"
    using ok live by (rule onUnmounted_known)
  have "elementData (onUnmounted G s h) i = None" "ids (onUnmounted G s h) h = None"
    "reactElements (onUnmounted G s h) i = Some h"
    using rev by (simp_all add: s' emit_store emit_registry)
  moreover have "\<forall>cs. reactElements (run G s cs) i = Some h"
    using run_keeps_reverse [OF gen ok rev] by blast
  ultimately show ?thesis using rev by simp
qed

theorem unmount_keeps_reverse_lookup_witness:
  "inj unary_guid \<and> registry_ok unary_guid sample_agent
   \<and> ids sample_agent (Ref 1) = Some (Str ''g'')
   \<and> reactElements sample_agent (Str ''g'') = Some (Ref 1)
   \<and> elementData (onUnmounted unary_guid sample_agent (Ref 1)) (Str ''g'') = None
   \<and> reactElements (onUnmounted unary_guid sample_agent (Ref 1)) (Str ''g'') = Some (Ref 1)
   \<and> reactElements (run unary_guid sample_agent
          [OnUnmounted (Ref 1), OnMounted ''dom'' (Ref 1) app_data]) (Str ''g'') = Some (Ref 1)"
proof -
  have live: "ids sample_agent (Ref 1) = Some (Str ''g'')" by (simp add: sample_agent_eval)
  show ?thesis
    using unmount_keeps_reverse_lookup [OF inj_unary_guid sample_ok live]
      inj_unary_guid sample_ok live
    by blast
qed

subsection \<open>Mounting and updating\<close>

lemma sent_children:
  assumes gen: "inj G" and ok: "registry_ok G s3" and arr: "get_prop data ''children'' = Arr cs"
    and st: "elementData s3 eid = Some data"
  shows "\<exists>send ts. make_send G s3 eid data = Inr (send, snd (map_getId G s3 cs))
           \<and> get_prop (Obj send) ''children'' = Arr ts
           \<and> length ts = length cs
           \<and> (\<forall>t\<in>set ts. \<not> is_object_like t)
           \<and> (\<forall>j<length cs. getId G (emit (snd (map_getId G s3 cs)) ev [Obj send]) (cs ! j)
                                = (ts ! j, emit (snd (map_getId G s3 cs)) ev [Obj send]))"
proof -
  let ?s4 = "snd (map_getId G s3 cs)" and ?ts = "fst (map_getId G s3 cs)"
  from make_send_array [OF arr, of G s3 eid] obtain send where
    send: "make_send G s3 eid data = Inr (send, ?s4)" "map_of send ''children'' = Some (Arr ?ts)"
    by blast
  let ?s' = "emit ?s4 ev [Obj send]"
  have ch: "get_prop (Obj send) ''children'' = Arr ?ts" using send(2) by simp
  have len: "length ?ts = length cs" by (rule map_getId_length)
  have ok': "registry_ok G ?s'"
    using map_getId_ok [OF gen ok, of cs] by (simp add: registry_ok_fields)
  have each: "\<forall>j<length cs. getId G ?s' (cs ! j) = (?ts ! j, ?s')"
  proof (intro allI impI)
    fix j assume j: "j < length cs"
    have "\<forall>h u. ids ?s4 h = Some u \<longrightarrow> ids ?s' h = Some u" by (simp add: emit_registry)
    from map_getId_result [OF gen ok this j] show "getId G ?s' (cs ! j) = (?ts ! j, ?s')" .
  qed
  have none: "\<forall>t\<in>set ?ts. \<not> is_object_like t"
  proof
    fix t assume "t \<in> set ?ts"
    then obtain j where j: "j < length cs" "?ts ! j = t"
      using len by (auto simp: in_set_conv_nth)
    then have "getId G ?s' (cs ! j) = (t, ?s')" using each by auto
    with ok' show "\<not> is_object_like t" by (rule getId_result_not_object)
  qed
  show ?thesis using send(1) ch len none each by blast
qed

text \<open>
  C1, as stated, fails: onMounted stores the data as the producer passed it. After the
  root \<open>Ref 1\<close> is mounted with \<open>root_data\<close>, whose children are \<open>[Ref 2]\<close>, the snapshot
  stored under its identity \<open>g\<close> still has the raw handle \<open>Ref 2\<close> as its child.
\<close>

theorem stored_children_are_raw:
  "onMounted unary_guid fresh_agent ''dom'' (Ref 1) root_data
     = Inr (after_partial (onMounted unary_guid fresh_agent ''dom'' (Ref 1) root_data))
   \<and> fst (getId unary_guid
            (after_partial (onMounted unary_guid fresh_agent ''dom'' (Ref 1) root_data)) (Ref 1))
       = Str ''g''
   \<and> get_prop (map_get (elementData
          (after_partial (onMounted unary_guid fresh_agent ''dom'' (Ref 1) root_data)))
          (Str ''g'')) ''children'' = Arr [Ref 2]
   \<and> is_object_like (Ref 2)"
  by (simp add: fresh_agent_def new_Agent_def onMounted_def make_send_def getId_def emit_def
        unary_guid_def map_get_def after_partial_def has_map_def root_data_def js_and_def
        not_not_def delete_prop_def Let_def is_object_like_def)

text \<open>
  C1, amended. For onMounted and onUpdated with data whose \<open>children\<close> is an array, on
  a consistent registry with a generator that never repeats: the call returns, the
  snapshot stored under the identity of the handle is the data unchanged, and the one
  event emitted (\<open>mount\<close>, \<open>update\<close>) carries a record whose \<open>children\<close> has one entry per
  child, none of them object-like, each the identity getId reports for that child
  afterwards.
\<close>

theorem sent_children_are_identities:
  assumes gen: "inj G" and ok: "registry_ok G s" and arr: "get_prop data ''children'' = Arr cs"
  shows "(\<exists>s' send ts. onMounted G s r h data = Inr s'
            \<and> elementData s' (fst (getId G s h)) = Some data
            \<and> emitted s' = emitted s @ [(''mount'', [Obj send])]
            \<and> get_prop (Obj send) ''children'' = Arr ts
            \<and> length ts = length cs
            \<and> (\<forall>t\<in>set ts. \<not> is_object_like t)
            \<and> (\<forall>j<length cs. getId G s' (cs ! j) = (ts ! j, s')))
       \<and> (\<exists>s' send ts. onUpdated G s h data = Inr s'
            \<and> elementData s' (fst (getId G s h)) = Some data
            \<and> emitted s' = emitted s @ [(''update'', [Obj send])]
            \<and> get_prop (Obj send) ''children'' = Arr ts
            \<and> length ts = length cs
            \<and> (\<forall>t\<in>set ts. \<not> is_object_like t)
            \<and> (\<forall>j<length cs. getId G s' (cs ! j) = (ts ! j, s')))"
proof
  let ?i = "fst (getId G s h)" and ?s1 = "snd (getId G s h)"
  let ?s3 = "?s1\<lparr>renderers := (renderers ?s1)(?i \<mapsto> r), elementData := (elementData ?s1)(?i \<mapsto> data)\<rparr>"
  have ok3: "registry_ok G ?s3" using getId_ok [OF gen ok, of h] by (simp add: registry_ok_fields)
  have st: "elementData ?s3 ?i = Some data" by simp
  from sent_children [OF gen ok3 arr st, of "''mount''"] obtain send ts where
    m: "make_send G ?s3 ?i data = Inr (send, snd (map_getId G ?s3 cs))"
      "get_prop (Obj send) ''children'' = Arr ts" "length ts = length cs"
      "\<forall>t\<in>set ts. \<not> is_object_like t"
      "\<forall>j<length cs. getId G (emit (snd (map_getId G ?s3 cs)) ''mount'' [Obj send]) (cs ! j)
                                = (ts ! j, emit (snd (map_getId G ?s3 cs)) ''mount'' [Obj send])"
    by blast
  let ?s' = "emit (snd (map_getId G ?s3 cs)) ''mount'' [Obj send]"
  have run: "onMounted G s r h data = Inr ?s'"
    using m(1) by (simp add: onMounted_def Let_def case_prod_beta)
  have data: "elementData ?s' ?i = Some data"
    using map_getId_store [of G ?s3 cs] by (simp add: emit_store)
  have ev: "emitted ?s' = emitted s @ [(''mount'', [Obj send])]"
    using map_getId_store [of G ?s3 cs] by (simp add: emit_plain getId_store)
  show "\<exists>s' send ts. onMounted G s r h data = Inr s'
            \<and> elementData s' ?i = Some data
            \<and> emitted s' = emitted s @ [(''mount'', [Obj send])]
            \<and> get_prop (Obj send) ''children'' = Arr ts
            \<and> length ts = length cs
            \<and> (\<forall>t\<in>set ts. \<not> is_object_like t)
            \<and> (\<forall>j<length cs. getId G s' (cs ! j) = (ts ! j, s'))"
    using run data ev m(2-5) by blast
next
  let ?i = "fst (getId G s h)" and ?s1 = "snd (getId G s h)"
  let ?s3 = "?s1\<lparr>elementData := (elementData ?s1)(?i \<mapsto> data)\<rparr>"
  have ok3: "registry_ok G ?s3" using getId_ok [OF gen ok, of h] by (simp add: registry_ok_fields)
  have st: "elementData ?s3 ?i = Some data" by simp
  from sent_children [OF gen ok3 arr st, of "''update''"] obtain send ts where
    m: "make_send G ?s3 ?i data = Inr (send, snd (map_getId G ?s3 cs))"
      "get_prop (Obj send) ''children'' = Arr ts" "length ts = length cs"
      "\<forall>t\<in>set ts. \<not> is_object_like t"
      "\<forall>j<length cs. getId G (emit (snd (map_getId G ?s3 cs)) ''update'' [Obj send]) (cs ! j)
                                = (ts ! j, emit (snd (map_getId G ?s3 cs)) ''update'' [Obj send])"
    by blast
  let ?s' = "emit (snd (map_getId G ?s3 cs)) ''update'' [Obj send]"
  have run: "onUpdated G s h data = Inr ?s'"
    using m(1) by (simp add: onUpdated_def Let_def case_prod_beta)
  have data: "elementData ?s' ?i = Some data"
    using map_getId_store [of G ?s3 cs] by (simp add: emit_store)
  have ev: "emitted ?s' = emitted s @ [(''update'', [Obj send])]"
    using map_getId_store [of G ?s3 cs] by (simp add: emit_plain getId_store)
  show "\<exists>s' send ts. onUpdated G s h data = Inr s'
            \<and> elementData s' ?i = Some data
            \<and> emitted s' = emitted s @ [(''update'', [Obj send])]
            \<and> get_prop (Obj send) ''children'' = Arr ts
            \<and> length ts = length cs
            \<and> (\<forall>t\<in>set ts. \<not> is_object_like t)
            \<and> (\<forall>j<length cs. getId G s' (cs ! j) = (ts ! j, s'))"
    using run data ev m(2-5) by blast
qed

theorem sent_children_are_identities_witness:
  "inj unary_guid \<and> registry_ok unary_guid fresh_agent
   \<and> get_prop root_data ''children'' = Arr [Ref 2]
   \<and> (\<exists>s' send ts. onMounted unary_guid fresh_agent ''dom'' (Ref 1) root_data = Inr s'
         \<and> elementData s' (fst (getId unary_guid fresh_agent (Ref 1))) = Some root_data
         \<and> emitted s' = emitted fresh_agent @ [(''mount'', [Obj send])]
         \<and> get_prop (Obj send) ''children'' = Arr ts
         \<and> length ts = 1
         \<and> \<not> is_object_like (ts ! 0)
         \<and> getId unary_guid s' (Ref 2) = (ts ! 0, s'))"
proof -
  have arr: "get_prop root_data ''children'' = Arr [Ref 2]" by (simp add: root_data_def)
  from sent_children_are_identities [OF inj_unary_guid fresh_ok arr, of "''dom''" "Ref 1"]
  obtain s' send ts where
    "onMounted unary_guid fresh_agent ''dom'' (Ref 1) root_data = Inr s'"
    "elementData s' (fst (getId unary_guid fresh_agent (Ref 1))) = Some root_data"
    "emitted s' = emitted fresh_agent @ [(''mount'', [Obj send])]"
    "get_prop (Obj send) ''children'' = Arr ts"
    "length ts = length [Ref 2]"
    "\<forall>t\<in>set ts. \<not> is_object_like t"
    "\<forall>j<length [Ref 2]. getId unary_guid s' ([Ref 2] ! j) = (ts ! j, s')"
    by blast
  moreover from this have "\<not> is_object_like (ts ! 0)" "getId unary_guid s' (Ref 2) = (ts ! 0, s')"
    by simp_all
  ultimately show ?thesis using inj_unary_guid fresh_ok arr by auto
qed

lemma make_send_app:
  "make_send G s eid app_data =
     Inr ([(''name'', Str ''App''), (''children'', Arr []), (''id'', eid),
           (''canUpdate'', Undefined)], s)"
  by (simp add: make_send_def app_data_def has_map_def js_and_def delete_prop_def Let_def)

text \<open>
  C5, as stated, fails: for data without an updater \<open>send.updater && ...\<close> is
  \<open>undefined\<close>, so the payload of the mount scenario has \<open>canUpdate: undefined\<close>, not the
  boolean \<open>false\<close>.
\<close>

theorem mount_canUpdate_undefined:
  "emitted (run unary_guid fresh_agent [AddRoot ''dom'' (Ref 1), OnMounted ''dom'' (Ref 1) app_data])
     = [(''root'', [Str ''g'']),
        (''mount'', [Obj [(''name'', Str ''App''), (''children'', Arr []), (''id'', Str ''g''),
                         (''canUpdate'', Undefined)]])]
   \<and> get_prop (Obj [(''name'', Str ''App''), (''children'', Arr []), (''id'', Str ''g''),
                    (''canUpdate'', Undefined)]) ''canUpdate'' \<noteq> Bool False"
  by (simp add: fresh_agent_def new_Agent_def addRoot_def onMounted_def make_send_def getId_def
        emit_def unary_guid_def map_get_def after_partial_def has_map_def app_data_def js_and_def
        not_not_def delete_prop_def Let_def)

text \<open>
  C5, amended. addRoot followed by onMounted of the same handle with
  \<open>{name: "App", children: []}\<close> returns and emits \<open>root\<close> with the identity of the handle,
  then \<open>mount\<close> with the payload \<open>{name: "App", children: [], id, canUpdate: undefined}\<close>.
  In every mount payload \<open>id\<close> is the identity, \<open>type\<close> and \<open>updater\<close> are absent, and
  \<open>canUpdate\<close> is the boolean telling whether the updater has \<open>forceUpdate\<close> when the data
  has an updater, and the falsy value of the \<open>updater\<close> field itself when it has none.
\<close>

theorem mount_emission:
  "onMounted G (addRoot G s r h) r h app_data
     = Inr (after_partial (onMounted G (addRoot G s r h) r h app_data))
   \<and> emitted (after_partial (onMounted G (addRoot G s r h) r h app_data))
     = emitted s @
        [(''root'', [fst (getId G s h)]),
         (''mount'', [Obj [(''name'', Str ''App''), (''children'', Arr []),
                          (''id'', fst (getId G s h)), (''canUpdate'', Undefined)]])]
   \<and> (onMounted G s r h data = Inr s' \<longrightarrow>
        (\<exists>send. emitted s' = emitted s @ [(''mount'', [Obj send])]
           \<and> map_of send ''id'' = Some (fst (getId G s h))
           \<and> map_of send ''canUpdate'' =
               Some (if truthy (get_prop data ''updater'')
                     then Bool (truthy (get_prop (get_prop data ''updater'') ''forceUpdate''))
                     else get_prop data ''updater'')
           \<and> map_of send ''type'' = None \<and> map_of send ''updater'' = None))"
proof -
  let ?i = "fst (getId G s h)"
  let ?s1 = "addRoot G s r h"
  have ids1: "ids ?s1 = ids (snd (getId G s h))" by (simp add: addRoot_unfold emit_registry)
  have again: "getId G ?s1 h = (?i, ?s1)" using ids1 by (rule getId_again)
  have ev1: "emitted ?s1 = emitted s @ [(''root'', [?i])]"
    by (simp add: addRoot_unfold emit_plain getId_store)
  have m: "onMounted G ?s1 r h app_data
     = Inr (emit (?s1\<lparr>renderers := (renderers ?s1)(?i \<mapsto> r),
                      elementData := (elementData ?s1)(?i \<mapsto> app_data)\<rparr>) ''mount''
              [Obj [(''name'', Str ''App''), (''children'', Arr []), (''id'', ?i),
                    (''canUpdate'', Undefined)]])"
    by (simp add: onMounted_def again make_send_app Let_def)
  have a: "onMounted G ?s1 r h app_data = Inr (after_partial (onMounted G ?s1 r h app_data))"
    by (simp add: m after_partial_def)
  have b: "emitted (after_partial (onMounted G ?s1 r h app_data))
     = emitted s @
        [(''root'', [?i]),
         (''mount'', [Obj [(''name'', Str ''App''), (''children'', Arr []),
                          (''id'', ?i), (''canUpdate'', Undefined)]])]"
    by (simp add: m after_partial_def emit_plain ev1)
  have c: "onMounted G s r h data = Inr s' \<longrightarrow>
        (\<exists>send. emitted s' = emitted s @ [(''mount'', [Obj send])]
           \<and> map_of send ''id'' = Some ?i
           \<and> map_of send ''canUpdate'' =
               Some (if truthy (get_prop data ''updater'')
                     then Bool (truthy (get_prop (get_prop data ''updater'') ''forceUpdate''))
                     else get_prop data ''updater'')
           \<and> map_of send ''type'' = None \<and> map_of send ''updater'' = None)"
  proof
    assume r: "onMounted G s r h data = Inr s'"
    let ?s3 = "(snd (getId G s h))\<lparr>renderers := (renderers (snd (getId G s h)))(?i \<mapsto> r),
                    elementData := (elementData (snd (getId G s h)))(?i \<mapsto> data)\<rparr>"
    from r obtain send s4 where ms: "make_send G ?s3 ?i data = Inr (send, s4)"
      and s': "s' = emit s4 ''mount'' [Obj send]"
      by (auto simp: onMounted_def Let_def split: prod.splits sum.splits)
    have "s4 = ?s3 \<or> (\<exists>cs. s4 = snd (map_getId G ?s3 cs))"
      using make_send_state [of G ?s3 ?i data] ms by simp
    then have "emitted s4 = emitted s"
      using map_getId_store [of G ?s3] by (auto simp: getId_store)
    then have "emitted s' = emitted s @ [(''mount'', [Obj send])]"
      by (simp add: s' emit_plain)
    then show "\<exists>send. emitted s' = emitted s @ [(''mount'', [Obj send])]
           \<and> map_of send ''id'' = Some ?i
           \<and> map_of send ''canUpdate'' =
               Some (if truthy (get_prop data ''updater'')
                     then Bool (truthy (get_prop (get_prop data ''updater'') ''forceUpdate''))
                     else get_prop data ''updater'')
           \<and> map_of send ''type'' = None \<and> map_of send ''updater'' = None"
      using make_send_fields [OF ms] by (auto simp: js_and_def not_not_def)
  qed
  show ?thesis using a b c by blast
qed

theorem mount_emission_witness:
  "emitted (after_partial
      (onMounted unary_guid (addRoot unary_guid fresh_agent ''dom'' (Ref 1)) ''dom'' (Ref 1) app_data))
     = [(''root'', [Str ''g'']),
        (''mount'', [Obj [(''name'', Str ''App''), (''children'', Arr []), (''id'', Str ''g''),
                         (''canUpdate'', Undefined)]])]"
proof -
  have i: "fst (getId unary_guid fresh_agent (Ref 1)) = Str ''g''"
    by (simp add: getId_def fresh_agent_def new_Agent_def map_get_def unary_guid_def)
  have e: "emitted fresh_agent = []" by (simp add: fresh_agent_def new_Agent_def)
  show ?thesis
    using mount_emission [of unary_guid fresh_agent "''dom''" "Ref 1" app_data fresh_agent] i e
    by simp
qed

subsection \<open>The scroll debounce\<close>

lemma onScroll_pending: "scrollUpdate s \<Longrightarrow> onScroll s = s"
  by (simp add: onScroll_def)

lemma onScroll_funpow: "\<not> scrollUpdate s \<Longrightarrow> (onScroll ^^ Suc n) s = onScroll s"
proof (induction n)
  case 0
  then show ?case by simp
next
  case (Suc n)
  have "scrollUpdate (onScroll s)" using Suc.prems by (simp add: onScroll_def)
  then have "onScroll (onScroll s) = onScroll s" by (rule onScroll_pending)
  with Suc show ?case by simp
qed

text \<open>
  C9. The scroll debounce is single-flight. From a quiescent state (flag clear, no
  refresh requested) the first scroll notification sets the flag and requests exactly one
  animation-frame callback; a scroll notification that finds the flag set changes
  nothing; so \<open>n + 1\<close> notifications followed by the animation frame emit exactly one
  \<open>refreshMultiOverlay\<close>, and the agent is back in the state it started from, flag clear,
  but for that one emission.
\<close>

theorem scroll_single_flight:
  assumes quiet: "\<not> scrollUpdate s" and none: "frame_requests s = []"
  shows "onScroll s = s\<lparr>scrollUpdate := True, frame_requests := [UpdateScroll]\<rparr>
       \<and> (\<forall>s'. scrollUpdate s' \<longrightarrow> onScroll s' = s')
       \<and> (onScroll ^^ Suc n) s = onScroll s
       \<and> animation_frame ((onScroll ^^ Suc n) s)
           = s\<lparr>emitted := emitted s @ [(''refreshMultiOverlay'', [])]\<rparr>
       \<and> \<not> scrollUpdate (animation_frame ((onScroll ^^ Suc n) s))
       \<and> frame_requests (animation_frame ((onScroll ^^ Suc n) s)) = []"
proof -
  have first: "onScroll s = s\<lparr>scrollUpdate := True, frame_requests := [UpdateScroll]\<rparr>"
    using quiet none by (simp add: onScroll_def)
  have many: "(onScroll ^^ Suc n) s = onScroll s"
    using quiet by (rule onScroll_funpow)
  have frame: "animation_frame (onScroll s)
                 = s\<lparr>emitted := emitted s @ [(''refreshMultiOverlay'', [])]\<rparr>"
    using quiet none
    by (cases s) (simp add: onScroll_def animation_frame_def updateScroll_def emit_def)
  show ?thesis
    using first many frame quiet none onScroll_pending by (simp del: funpow.simps)
qed

theorem scroll_single_flight_witness:
  "\<not> scrollUpdate fresh_agent \<and> frame_requests fresh_agent = []
   \<and> animation_frame (onScroll (onScroll fresh_agent))
       = fresh_agent\<lparr>emitted := [(''refreshMultiOverlay'', [])]\<rparr>"
proof -
  have a: "\<not> scrollUpdate fresh_agent" by (simp add: fresh_agent_def new_Agent_def)
  have b: "frame_requests fresh_agent = []" by (simp add: fresh_agent_def new_Agent_def)
  have e: "emitted fresh_agent = []" by (simp add: fresh_agent_def new_Agent_def)
  from scroll_single_flight [OF a b, of "Suc 0"]
  have "animation_frame ((onScroll ^^ Suc (Suc 0)) fresh_agent)
          = fresh_agent\<lparr>emitted := emitted fresh_agent @ [(''refreshMultiOverlay'', [])]\<rparr>"
    by blast
  then show ?thesis using a b e by simp
qed

subsection \<open>Commands on the updater\<close>

lemma setProps_cases:
  "(\<not> truthy (updater_slot s eid ''setInProps'') \<longrightarrow>
      setProps s eid p v = Inr (s\<lparr>console := console s @
         [(Warn, [Str ''trying to set props on a component that doesn't support it''])]\<rparr>))
   \<and> (updater_slot s eid ''setInProps'' = Fun f \<longrightarrow>
      setProps s eid p v = Inr (s\<lparr>invoked := invoked s @ [(Fun f, [p, v])]\<rparr>))"
  by (auto simp: setProps_def updater_slot_def map_get_def console_warn_def call_function_def
           split: option.splits)

lemma setState_cases:
  "(\<not> truthy (updater_slot s eid ''setInState'') \<longrightarrow>
      setState s eid p v = Inr (s\<lparr>console := console s @
         [(Warn, [Str ''trying to set state on a component that doesn't support it''])]\<rparr>))
   \<and> (updater_slot s eid ''setInState'' = Fun f \<longrightarrow>
      setState s eid p v = Inr (s\<lparr>invoked := invoked s @ [(Fun f, [p, v])]\<rparr>))"
  by (auto simp: setState_def updater_slot_def map_get_def console_warn_def call_function_def
           split: option.splits)

lemma setContext_cases:
  "(\<not> truthy (updater_slot s eid ''setInContext'') \<longrightarrow>
      setContext s eid p v = Inr (s\<lparr>console := console s @
         [(Warn, [Str ''trying to set state on a component that doesn't support it''])]\<rparr>))
   \<and> (updater_slot s eid ''setInContext'' = Fun f \<longrightarrow>
      setContext s eid p v = Inr (s\<lparr>invoked := invoked s @ [(Fun f, [p, v])]\<rparr>))"
  by (auto simp: setContext_def updater_slot_def map_get_def console_warn_def call_function_def
           split: option.splits)

text \<open>
  C7. For a setProps, setState or setContext command \<open>{id, path, value}\<close>: when \<open>id\<close> has
  no stored snapshot, or the snapshot has no updater, or the updater lacks the matching
  slot (setInProps, setInState, setInContext), the command returns without throwing, the
  state of the agent is what it was, and one warning is written to the console; when the
  slot holds a function, that function is invoked with exactly \<open>(path, value)\<close> and nothing
  else changes.
\<close>

theorem set_commands_contract:
  "((\<not> truthy (updater_slot s eid ''setInProps'') \<longrightarrow>
      setProps s eid p v = Inr (s\<lparr>console := console s @
         [(Warn, [Str ''trying to set props on a component that doesn't support it''])]\<rparr>))
    \<and> (updater_slot s eid ''setInProps'' = Fun f \<longrightarrow>
      setProps s eid p v = Inr (s\<lparr>invoked := invoked s @ [(Fun f, [p, v])]\<rparr>)))
   \<and> ((\<not> truthy (updater_slot s eid ''setInState'') \<longrightarrow>
      setState s eid p v = Inr (s\<lparr>console := console s @
         [(Warn, [Str ''trying to set state on a component that doesn't support it''])]\<rparr>))
    \<and> (updater_slot s eid ''setInState'' = Fun f \<longrightarrow>
      setState s eid p v = Inr (s\<lparr>invoked := invoked s @ [(Fun f, [p, v])]\<rparr>)))
   \<and> ((\<not> truthy (updater_slot s eid ''setInContext'') \<longrightarrow>
      setContext s eid p v = Inr (s\<lparr>console := console s @
         [(Warn, [Str ''trying to set state on a component that doesn't support it''])]\<rparr>))
    \<and> (updater_slot s eid ''setInContext'' = Fun f \<longrightarrow>
      setContext s eid p v = Inr (s\<lparr>invoked := invoked s @ [(Fun f, [p, v])]\<rparr>)))"
  using setProps_cases [of s eid p v f] setState_cases [of s eid p v f]
    setContext_cases [of s eid p v f]
  by blast

theorem set_commands_contract_witness:
  "updater_slot sample_agent (Str ''g'') ''setInProps'' = Fun 7
   \<and> setProps sample_agent (Str ''g'') (Arr [Str ''title'']) (Str ''ho'')
       = Inr (sample_agent\<lparr>invoked := [(Fun 7, [Arr [Str ''title''], Str ''ho''])]\<rparr>)
   \<and> \<not> truthy (updater_slot sample_agent (Str ''g'') ''setInState'')
   \<and> setState sample_agent (Str ''g'') (Arr [Str ''title'']) (Str ''ho'')
       = Inr (sample_agent\<lparr>console :=
           [(Warn, [Str ''trying to set state on a component that doesn't support it''])]\<rparr>)"
proof -
  have a: "updater_slot sample_agent (Str ''g'') ''setInProps'' = Fun 7"
    by (simp add: updater_slot_def sample_agent_eval root_data_def)
  have b: "\<not> truthy (updater_slot sample_agent (Str ''g'') ''setInState'')"
    by (simp add: updater_slot_def sample_agent_eval root_data_def)
  have c: "invoked sample_agent = []" "console sample_agent = []"
    by (simp_all add: sample_agent_eval)
  show ?thesis
    using set_commands_contract
      [of sample_agent "Str ''g''" "Arr [Str ''title'']" "Str ''ho''" 7] a b c
    by simp
qed

subsection \<open>makeGlobal and the path walk\<close>






subsection \<open>Highlighting\<close>

lemma collect_nodes_acc:
  "\<forall>eid\<in>set eids. lookup_returns s eid \<Longrightarrow>
   collect_nodes s eids acc = Inr (acc @ resolved_nodes s eids)"
proof (induction eids arbitrary: acc)
  case Nil
  then show ?case by (simp add: resolved_nodes_def)
next
  case (Cons eid eids)
  from Cons.prems obtain n where n: "getNodeForID s eid = Inr n"
    by (auto simp: lookup_returns_def split: sum.splits)
  have rest: "\<forall>e\<in>set eids. lookup_returns s e" using Cons.prems by simp
  show ?case
    using n Cons.IH [OF rest] by (simp add: resolved_nodes_def node_of_def)
qed

lemma getNodeForID_unknown:
  "reactElements s eid = None \<or> renderers s eid = None \<Longrightarrow> getNodeForID s eid = Inr Null"
  by (auto simp: getNodeForID_def map_get_def Let_def split: option.splits)

lemma producers_ok_returns: "producers_ok s \<Longrightarrow> lookup_returns s eid"
proof -
  assume ok: "producers_ok s"
  show ?thesis
  proof (cases "getNodeForID s eid")
    case (Inr n)
    then show ?thesis by (simp add: lookup_returns_def)
  next
    case (Inl e)
    then obtain r where r: "renderers s eid = Some r" "r \<noteq> []"
      by (auto simp: getNodeForID_def Let_def split: if_splits option.splits)
    with ok have "map_of (reactInternals s) r \<noteq> None"
      unfolding producers_ok_def by blast
    then obtain h where h: "map_of (reactInternals s) r = Some h"
      by blast
    show ?thesis
    proof (cases "getNativeFromReactElement h")
      case None
      with Inl r h show ?thesis
        by (simp add: getNodeForID_def Let_def split: if_splits)
    next
      case (Some f)
      with ok h obtain n where "f (map_get (reactElements s) eid) = Inr n"
        unfolding producers_ok_def by blast
      with Inl r h Some show ?thesis
        by (simp add: getNodeForID_def Let_def split: if_splits)
    qed
  qed
qed

lemma collect_nodes_throws:
  "eid \<in> set eids \<Longrightarrow> \<not> lookup_returns s eid \<Longrightarrow> \<exists>e. collect_nodes s eids acc = Inl e"
proof (induction eids arbitrary: acc)
  case Nil
  then show ?case by simp
next
  case (Cons a eids)
  show ?case
  proof (cases "getNodeForID s a")
    case (Inl e)
    then show ?thesis by simp
  next
    case (Inr n)
    then have "a \<noteq> eid" using Cons.prems(2) by (auto simp: lookup_returns_def)
    then have "eid \<in> set eids" using Cons.prems(1) by simp
    from Cons.IH [OF this Cons.prems(2)] Inr show ?thesis by simp
  qed
qed

lemma ghost_agent_eval:
  "reactElements ghost_agent (Str ''g'') = Some (Ref 1)"
  "renderers ghost_agent (Str ''g'') = Some ''ghost''"
  "reactInternals ghost_agent = []"
  "elementData ghost_agent (Str ''g'') = Some app_data"
  by (simp_all add: ghost_agent_def fresh_agent_def new_Agent_def onMounted_def make_send_def
        getId_def emit_def unary_guid_def map_get_def after_partial_def has_map_def
        app_data_def js_and_def not_not_def delete_prop_def Let_def)

lemma moody_agent_eval:
  "reactElements moody_agent (Str ''g'') = Some (Ref 1)"
  "reactElements moody_agent (Str ''gg'') = Some (Ref 2)"
  "renderers moody_agent (Str ''g'') = Some ''dom''"
  "renderers moody_agent (Str ''gg'') = Some ''dom''"
  "reactInternals moody_agent = [(''dom'', moody_helpers)]"
  "elementData moody_agent (Str ''gg'') = Some app_data"
  by (simp_all add: moody_agent_def fresh_agent_def new_Agent_def onMounted_def make_send_def
        getId_def emit_def unary_guid_def map_get_def after_partial_def has_map_def
        app_data_def js_and_def not_not_def delete_prop_def Let_def setReactInternals_def
        sample_tokens)

lemma failing_nodes:
  "getNodeForID ghost_agent (Str ''g'') = Inl TypeError"
  "getNodeForID moody_agent (Str ''g'') = Inr (Ref 101)"
  "getNodeForID moody_agent (Str ''gg'') = Inl (Thrown (Str ''boom''))"
  by (simp_all add: getNodeForID_def ghost_agent_eval moody_agent_eval map_get_def
        moody_helpers_def)

text \<open>
  C6, as stated, fails: getNodeForID has no \<open>try\<close>, so highlight and highlightMany throw
  when the native lookup throws. An element mounted by a renderer that never registered
  has a snapshot and no node, and highlight throws the TypeError of reading a member of
  \<open>undefined\<close>; with a producer whose native lookup throws on \<open>Ref 2\<close>, highlight of its
  identity throws, and highlightMany of a list in which another identity resolves throws
  too and emits nothing.
\<close>

theorem highlight_throws:
  "elementData ghost_agent (Str ''g'') = Some app_data
   \<and> highlight ghost_agent (Str ''g'') = Inl TypeError
   \<and> elementData moody_agent (Str ''gg'') = Some app_data
   \<and> highlight moody_agent (Str ''gg'') = Inl (Thrown (Str ''boom''))
   \<and> getNodeForID moody_agent (Str ''g'') = Inr (Ref 101)
   \<and> highlightMany moody_agent [Str ''g'', Str ''gg''] = Inl (Thrown (Str ''boom''))"
  by (simp add: highlight_def highlightMany_def failing_nodes ghost_agent_eval moody_agent_eval)

text \<open>
  C6, amended. When the native lookup returns (does not throw) for every identity of the
  list, highlightMany emits nothing if no identity resolves to a node (the empty list
  included), and otherwise exactly one \<open>highlightMany\<close> event, whose payload is the list
  of the nodes of the identities that resolve, in the order of the input. When the native
  lookup of an identity returns, highlight emits one \<open>highlight\<close> event with the node, the
  name and the props if there are both a stored snapshot and a node, and otherwise
  returns with nothing emitted. The lookup returns, with null, for an identity without an
  element or without a renderer (never seen, or unmounted), and for every identity when
  the producers keep to their interface. An exception of the lookup leaves highlight as
  it is, and makes highlightMany throw when it is met in the list.
\<close>

theorem highlight_contract:
  "((\<forall>eid\<in>set eids. lookup_returns s eid) \<longrightarrow>
      highlightMany s eids =
        Inr (if resolved_nodes s eids = [] then s
             else s\<lparr>emitted := emitted s @ [(''highlightMany'', [Arr (resolved_nodes s eids)])]\<rparr>))
   \<and> (getNodeForID s eid = Inr node \<longrightarrow>
      highlight s eid =
        Inr (if truthy (map_get (elementData s) eid) \<and> truthy node
             then s\<lparr>emitted := emitted s @
                    [(''highlight'', [Obj [(''node'', node),
                        (''name'', get_prop (map_get (elementData s) eid) ''name''),
                        (''props'', get_prop (map_get (elementData s) eid) ''props'')]])]\<rparr>
             else s))
   \<and> (reactElements s eid = None \<or> renderers s eid = None \<longrightarrow>
        lookup_returns s eid \<and> node_of s eid = Null \<and> highlight s eid = Inr s)
   \<and> (producers_ok s \<longrightarrow> (\<forall>e. lookup_returns s e))
   \<and> (getNodeForID s eid = Inl err \<longrightarrow> highlight s eid = Inl err)
   \<and> (eid \<in> set eids \<and> \<not> lookup_returns s eid \<longrightarrow> (\<exists>e. highlightMany s eids = Inl e))"
proof -
  have many: "(\<forall>eid\<in>set eids. lookup_returns s eid) \<Longrightarrow>
      highlightMany s eids =
        Inr (if resolved_nodes s eids = [] then s
             else s\<lparr>emitted := emitted s @ [(''highlightMany'', [Arr (resolved_nodes s eids)])]\<rparr>)"
    using collect_nodes_acc [of eids s "[]"]
    by (simp add: highlightMany_def emit_plain)
  have one: "getNodeForID s eid = Inr node \<Longrightarrow>
      highlight s eid =
        Inr (if truthy (map_get (elementData s) eid) \<and> truthy node
             then s\<lparr>emitted := emitted s @
                    [(''highlight'', [Obj [(''node'', node),
                        (''name'', get_prop (map_get (elementData s) eid) ''name''),
                        (''props'', get_prop (map_get (elementData s) eid) ''props'')]])]\<rparr>
             else s)"
    by (simp add: highlight_def emit_plain Let_def)
  have stale: "reactElements s eid = None \<or> renderers s eid = None \<Longrightarrow>
        lookup_returns s eid \<and> node_of s eid = Null \<and> highlight s eid = Inr s"
    using getNodeForID_unknown [of s eid]
    by (simp add: lookup_returns_def node_of_def highlight_def Let_def)
  have thrown: "getNodeForID s eid = Inl err \<Longrightarrow> highlight s eid = Inl err"
    by (simp add: highlight_def Let_def)
  have thrown_many: "eid \<in> set eids \<and> \<not> lookup_returns s eid \<Longrightarrow>
        \<exists>e. highlightMany s eids = Inl e"
  proof -
    assume a: "eid \<in> set eids \<and> \<not> lookup_returns s eid"
    then obtain e where "collect_nodes s eids [] = Inl e"
      using collect_nodes_throws [of eid eids s "[]"] by blast
    then show ?thesis by (simp add: highlightMany_def)
  qed
  show ?thesis using many one stale producers_ok_returns thrown thrown_many by blast
qed

lemma sample_nodes:
  "getNodeForID sample_agent (Str ''zz'') = Inr Null"
  "getNodeForID sample_agent (Str ''g'') = Inr (Ref 101)"
  "getNodeForID sample_agent (Str ''gg'') = Inr Null"
  by (simp_all add: getNodeForID_def sample_agent_eval map_get_def dom_helpers_def)

lemma sample_producers_ok: "producers_ok sample_agent"
proof -
  have r: "reactInternals sample_agent =
      [(''throwing'', throwing_helpers), (''bare'', bare_helpers), (''dom'', dom_helpers)]"
    by (simp add: sample_agent_eval)
  have a: "renderers sample_agent = [Str ''g'' \<mapsto> ''dom'']"
    by (simp add: sample_agent_eval)
  have n: "getNativeFromReactElement throwing_helpers = None"
    "getNativeFromReactElement bare_helpers = None"
    "getNativeFromReactElement dom_helpers
       = Some (\<lambda>c. if c = Ref 1 then Inr (Ref 101) else Inr Null)"
    by (simp_all add: throwing_helpers_def bare_helpers_def dom_helpers_def)
  have one: "\<forall>eid r. renderers sample_agent eid = Some r \<longrightarrow>
               r = [] \<or> map_of (reactInternals sample_agent) r \<noteq> None"
    unfolding r a by (simp split: if_splits)
  have two: "\<forall>r h f c. map_of (reactInternals sample_agent) r = Some h \<longrightarrow>
          getNativeFromReactElement h = Some f \<longrightarrow> (\<exists>n. f c = Inr n)"
  proof (intro allI impI)
    fix r h f c
    assume m: "map_of (reactInternals sample_agent) r = Some h"
      and f: "getNativeFromReactElement h = Some f"
    from m have "h = throwing_helpers \<or> h = bare_helpers \<or> h = dom_helpers"
      unfolding r by (simp split: if_splits)
    with f n have "f = (\<lambda>c. if c = Ref 1 then Inr (Ref 101) else Inr Null)" by auto
    then show "\<exists>n. f c = Inr n" by simp
  qed
  show ?thesis unfolding producers_ok_def using one two by blast
qed

theorem highlight_contract_witness:
  "producers_ok sample_agent
   \<and> lookup_returns sample_agent (Str ''zz'') \<and> lookup_returns sample_agent (Str ''g'')
   \<and> lookup_returns sample_agent (Str ''gg'')
   \<and> highlightMany sample_agent [Str ''zz'', Str ''g'', Str ''gg'']
       = Inr (sample_agent\<lparr>emitted := emitted sample_agent
                @ [(''highlightMany'', [Arr [Ref 101]])]\<rparr>)
   \<and> highlightMany sample_agent [Str ''zz'', Str ''gg''] = Inr sample_agent
   \<and> highlight sample_agent (Str ''g'')
       = Inr (sample_agent\<lparr>emitted := emitted sample_agent
                @ [(''highlight'', [Obj [(''node'', Ref 101), (''name'', Str ''App''),
                     (''props'', Obj [(''title'', Str ''hi''), (''style'', Null)])]])]\<rparr>)
   \<and> \<not> lookup_returns moody_agent (Str ''gg'')
   \<and> (\<exists>e. highlightMany moody_agent [Str ''g'', Str ''gg''] = Inl e)"
proof -
  note three = highlight_contract
                 [of "[Str ''zz'', Str ''g'', Str ''gg'']" sample_agent "Str ''g''" "Ref 101"]
  note two = highlight_contract [of "[Str ''zz'', Str ''gg'']" sample_agent "Str ''g''" "Ref 101"]
  have ret: "\<forall>e. lookup_returns sample_agent e"
    using three sample_producers_ok by blast
  have res: "resolved_nodes sample_agent [Str ''zz'', Str ''g'', Str ''gg''] = [Ref 101]"
    "resolved_nodes sample_agent [Str ''zz'', Str ''gg''] = []"
    by (simp_all add: resolved_nodes_def node_of_def sample_nodes)
  have many3: "highlightMany sample_agent [Str ''zz'', Str ''g'', Str ''gg'']
       = Inr (sample_agent\<lparr>emitted := emitted sample_agent
                @ [(''highlightMany'', [Arr [Ref 101]])]\<rparr>)"
    using three ret by (simp only: res) simp
  have many2: "highlightMany sample_agent [Str ''zz'', Str ''gg''] = Inr sample_agent"
    using two ret by (simp only: res) simp
  have data: "map_get (elementData sample_agent) (Str ''g'') = root_data"
    by (simp add: sample_agent_eval map_get_def)
  have props: "get_prop root_data ''name'' = Str ''App''"
    "get_prop root_data ''props'' = Obj [(''title'', Str ''hi''), (''style'', Null)]"
    "truthy root_data"
    by (simp_all add: root_data_def)
  have node: "getNodeForID sample_agent (Str ''g'') = Inr (Ref 101)" by (rule sample_nodes)
  from three node have "highlight sample_agent (Str ''g'') =
        Inr (if truthy (map_get (elementData sample_agent) (Str ''g'')) \<and> truthy (Ref 101)
             then sample_agent\<lparr>emitted := emitted sample_agent @
                    [(''highlight'', [Obj [(''node'', Ref 101),
                        (''name'', get_prop (map_get (elementData sample_agent) (Str ''g'')) ''name''),
                        (''props'', get_prop (map_get (elementData sample_agent) (Str ''g'')) ''props'')]])]\<rparr>
             else sample_agent)"
    by blast
  then have one: "highlight sample_agent (Str ''g'')
       = Inr (sample_agent\<lparr>emitted := emitted sample_agent
                @ [(''highlight'', [Obj [(''node'', Ref 101), (''name'', Str ''App''),
                     (''props'', Obj [(''title'', Str ''hi''), (''style'', Null)])]])]\<rparr>)"
    by (simp only: data props) simp
  have moody: "\<not> lookup_returns moody_agent (Str ''gg'')"
    by (simp add: lookup_returns_def failing_nodes)
  have "Str ''gg'' \<in> set [Str ''g'', Str ''gg'']" by simp
  with moody have thrown: "\<exists>e. highlightMany moody_agent [Str ''g'', Str ''gg''] = Inl e"
    using highlight_contract [of "[Str ''g'', Str ''gg'']" moody_agent "Str ''gg''"] by blast
  show ?thesis using sample_producers_ok ret many3 many2 one moody thrown by blast
qed

subsection \<open>From a native node to an identity\<close>





end
